theory Spec2Isabelle
  imports Complex_Main "HOL-Library.Multiset" "HOL-Library.Signed_Division"
begin

section \<open>Face permutations of the discontinuous face restriction\<close>

text \<open>
  The functions of this section are the index arithmetic of
  \<^verbatim>\<open>fem/backup/restriction_now.cpp\<close> that aligns the face-local numbering of the
  second element of a face with that of the first. A C++ \<^verbatim>\<open>int\<close> has 32 bits: an
  argument is an \<^typ>\<open>int\<close> in the range from \<open>- 2 ^ 31\<close> to \<open>2 ^ 31 - 1\<close>, and the
  result of every arithmetic operation is reduced to that range (two's complement
  wrap-around, what the compiled code computes where the mathematical result does not
  fit). \<^verbatim>\<open>/\<close> and \<^verbatim>\<open>%\<close> truncate towards zero and are \<open>sdiv\<close> and \<open>smod\<close>.
  A call of \<^verbatim>\<open>mfem_error\<close> aborts the program and is a value of type \<open>error\<close>;
  so is, in the functions that are modelled with their array bounds, a subscript outside
  its array (\<open>Subscript_out_of_range\<close>), where what the source does is not defined.
  The variable \<^verbatim>\<open>dim\<close> of the source is written \<open>dim'\<close>, since \<open>dim\<close> is a
  constant of the logic.
\<close>

definition int32 :: "int \<Rightarrow> int" where
  "int32 x = (x + 2 ^ 31) mod 2 ^ 32 - 2 ^ 31"

definition add32 :: "int \<Rightarrow> int \<Rightarrow> int" where
  "add32 a b = int32 (a + b)"

definition sub32 :: "int \<Rightarrow> int \<Rightarrow> int" where
  "sub32 a b = int32 (a - b)"

definition mul32 :: "int \<Rightarrow> int \<Rightarrow> int" where
  "mul32 a b = int32 (a * b)"

definition div32 :: "int \<Rightarrow> int \<Rightarrow> int" where
  "div32 a b = int32 (a sdiv b)"

definition mod32 :: "int \<Rightarrow> int \<Rightarrow> int" where
  "mod32 a b = int32 (a smod b)"

datatype error =
    Unsupported_dimension
  | Not_suitable_for_lexicographic_ordering
  | Invalid_dof_map
  | Unsupported_basis
  | Nonconforming_mesh
  | Not_implemented_for_this_element
  | Unexpected_number_of_faces
  | Degenerated_mesh
  | Subscript_out_of_range

text \<open>In the functions below \<^verbatim>\<open>size1d-1-i\<close> is \<open>sub32 (sub32 size1d 1) i\<close>.\<close>

definition ToLexOrdering2D :: "int \<Rightarrow> int \<Rightarrow> int \<Rightarrow> int" where
  "ToLexOrdering2D face_id size1d i =
     (if face_id = 2 \<or> face_id = 3 then sub32 (sub32 size1d 1) i else i)"

definition PermuteFace2D :: "int \<Rightarrow> int \<Rightarrow> int \<Rightarrow> int \<Rightarrow> int \<Rightarrow> int" where
  "PermuteFace2D face_id1 face_id2 orientation size1d index =
     (let new_index = (if face_id1 = 2 \<or> face_id1 = 3 then sub32 (sub32 size1d 1) index
                       else index);
          new_index = (if orientation = 1 then sub32 (sub32 size1d 1) new_index
                       else new_index)
      in ToLexOrdering2D face_id2 size1d new_index)"

definition PermuteDFaceDNorm2D :: "int \<Rightarrow> int \<Rightarrow> int \<Rightarrow> int \<Rightarrow> int \<Rightarrow> int" where
  "PermuteDFaceDNorm2D face_id1 face_id2 orientation size1d index =
     (let new_index = (if face_id1 = 2 \<or> face_id1 = 3 then sub32 (sub32 size1d 1) index
                       else index);
          new_index = (if orientation = 1 then sub32 (sub32 size1d 1) new_index
                       else new_index)
      in ToLexOrdering2D face_id2 size1d new_index)"

definition ToLexOrdering3D :: "int \<Rightarrow> int \<Rightarrow> int \<Rightarrow> int \<Rightarrow> int" where
  "ToLexOrdering3D face_id size1d i j =
     (if face_id = 2 \<or> face_id = 1 \<or> face_id = 5 then add32 i (mul32 j size1d)
      else if face_id = 3 \<or> face_id = 4
           then add32 (sub32 (sub32 size1d 1) i) (mul32 j size1d)
      else add32 i (mul32 (sub32 (sub32 size1d 1) j) size1d))"

text \<open>
  The \<^verbatim>\<open>switch (orientation)\<close> of \<^verbatim>\<open>PermuteFace3D\<close> has no default case: for a code
  outside \<open>0..7\<close> the pair keeps its initial value \<open>(0, 0)\<close>.
\<close>

definition permute_orientation3D :: "int \<Rightarrow> int \<Rightarrow> int \<Rightarrow> int \<Rightarrow> int \<times> int" where
  "permute_orientation3D orientation size1d i j =
     (if orientation = 0 then (i, j)
      else if orientation = 1 then (j, i)
      else if orientation = 2 then (j, sub32 (sub32 size1d 1) i)
      else if orientation = 3 then (sub32 (sub32 size1d 1) i, j)
      else if orientation = 4 then (sub32 (sub32 size1d 1) i, sub32 (sub32 size1d 1) j)
      else if orientation = 5 then (sub32 (sub32 size1d 1) j, sub32 (sub32 size1d 1) i)
      else if orientation = 6 then (sub32 (sub32 size1d 1) j, i)
      else if orientation = 7 then (i, sub32 (sub32 size1d 1) j)
      else (0, 0))"

definition PermuteFace3D :: "int \<Rightarrow> int \<Rightarrow> int \<Rightarrow> int \<Rightarrow> int \<Rightarrow> int" where
  "PermuteFace3D face_id1 face_id2 orientation size1d index =
     (let i = mod32 index size1d;
          j = div32 index size1d;
          i' = (if face_id1 = 3 \<or> face_id1 = 4 then sub32 (sub32 size1d 1) i else i);
          j' = (if face_id1 = 3 \<or> face_id1 = 4 then j
                else if face_id1 = 0 then sub32 (sub32 size1d 1) j else j);
          (new_i, new_j) = permute_orientation3D orientation size1d i' j'
      in ToLexOrdering3D face_id2 size1d new_i new_j)"

definition PermuteFaceL2 :: "int \<Rightarrow> int \<Rightarrow> int \<Rightarrow> int \<Rightarrow> int \<Rightarrow> int \<Rightarrow> error + int" where
  "PermuteFaceL2 dim' face_id1 face_id2 orientation size1d index =
     (if dim' = 1 then Inr 0
      else if dim' = 2 then Inr (PermuteFace2D face_id1 face_id2 orientation size1d index)
      else if dim' = 3 then Inr (PermuteFace3D face_id1 face_id2 orientation size1d index)
      else Inl Unsupported_dimension)"

text \<open>In \<^verbatim>\<open>PermuteDFaceDNormL2\<close> the case of dimension 3 is commented out.\<close>

definition PermuteDFaceDNormL2 :: "int \<Rightarrow> int \<Rightarrow> int \<Rightarrow> int \<Rightarrow> int \<Rightarrow> int \<Rightarrow> error + int" where
  "PermuteDFaceDNormL2 dim' face_id1 face_id2 orientation size1d index =
     (if dim' = 1 then Inr 0
      else if dim' = 2 then Inr (PermuteDFaceDNorm2D face_id1 face_id2 orientation size1d index)
      else Inl Unsupported_dimension)"

text \<open>The arguments the claim on face alignment ranges over.\<close>

definition valid_face_args :: "int \<Rightarrow> int \<Rightarrow> int \<Rightarrow> int \<Rightarrow> bool" where
  "valid_face_args dim' face_id1 face_id2 orientation =
     (if dim' = 2 then 0 \<le> face_id1 \<and> face_id1 < 4 \<and> 0 \<le> face_id2 \<and> face_id2 < 4
                      \<and> (orientation = 0 \<or> orientation = 1)
      else dim' = 3 \<and> 0 \<le> face_id1 \<and> face_id1 < 6 \<and> 0 \<le> face_id2 \<and> face_id2 < 6
                      \<and> 0 \<le> orientation \<and> orientation < 8)"

section \<open>Arrays, views and stores\<close>

text \<open>
  Sizes, loop counters and array positions are natural numbers. The contents of the index
  arrays that carry a sign code or a sentinel (\<^verbatim>\<open>gatherMap\<close>, \<^verbatim>\<open>indices\<close>, the
  element-to-dof table, \<^verbatim>\<open>scatter_indices2\<close>) are of type \<^typ>\<open>int\<close>. The array
  \<^verbatim>\<open>offsets\<close> and the row counters of a sparse matrix only ever hold counts (they start
  at 0 and are incremented or summed) and are lists of natural numbers.
  The entries of a \<^verbatim>\<open>Vector\<close> are of an arbitrary type \<open>'a\<close> with the operations the
  kernels use (\<open>0\<close>, \<open>+\<close>, unary \<open>-\<close>): no law of arithmetic is assumed of them, so
  every statement below holds for the source's \<^verbatim>\<open>double\<close> as it holds for the reals.
\<close>

text \<open>
  A signed index \<open>s\<close> stands for the unsigned index \<open>s\<close> if \<open>s \<ge> 0\<close> and for
  \<open>-1 - s\<close> otherwise (\<^verbatim>\<open>(s >= 0) ? s : -1 - s\<close> in the source).
\<close>

definition decode_index :: "int \<Rightarrow> nat" where
  "decode_index s = (if s \<ge> 0 then nat s else nat (-1 - s))"

text \<open>
  Modelled from the spec: the \<^verbatim>\<open>Reshape\<close> views of a flat array (the tensor class is
  not part of the sources). A view of dimensions \<open>(N0, N1, ...)\<close> addresses the flat array
  with the first index varying fastest.
\<close>

definition Reshape2 :: "nat \<Rightarrow> nat \<Rightarrow> nat \<Rightarrow> nat" where
  "Reshape2 N0 i0 i1 = i0 + N0 * i1"

definition Reshape3 :: "nat \<Rightarrow> nat \<Rightarrow> nat \<Rightarrow> nat \<Rightarrow> nat \<Rightarrow> nat" where
  "Reshape3 N0 N1 i0 i1 i2 = i0 + N0 * (i1 + N1 * i2)"

definition Reshape4 :: "nat \<Rightarrow> nat \<Rightarrow> nat \<Rightarrow> nat \<Rightarrow> nat \<Rightarrow> nat \<Rightarrow> nat \<Rightarrow> nat" where
  "Reshape4 N0 N1 N2 i0 i1 i2 i3 = i0 + N0 * (i1 + N1 * (i2 + N2 * i3))"

text \<open>
  A kernel that writes into an output vector is the list of its stores in program order:
  the position written and the new value as a function of the value found there
  (a constant function for \<^verbatim>\<open>=\<close>, an addition for \<^verbatim>\<open>+=\<close>). Running the kernel
  performs the stores one after the other. A \<^verbatim>\<open>MFEM_FORALL\<close> loop is run in the order of
  its index.
\<close>

type_synonym 'a store = "nat \<times> ('a \<Rightarrow> 'a)"

definition run_stores :: "'a store list \<Rightarrow> 'a list \<Rightarrow> 'a list" where
  "run_stores ops y = fold (\<lambda>(k, f) y. y[k := f (y ! k)]) ops y"

section \<open>Element restriction\<close>

text \<open>
  Modelled from the spec: what the constructors read from the finite element space and
  the mesh (the Mesh Topology Provider; its classes are not part of the sources): the
  number of elements, the vector dimension, the ordering, the number of global dofs, the
  number of dofs of the finite element, for each element whether its finite element is a
  tensor-basis element, the dof map of the tensor basis (lexicographic to native), and
  the flattened element-to-dof table of signed global ids.
\<close>

record FiniteElementSpace =
  GetNE :: nat
  GetVDim :: nat
  OrderingByVDIM :: bool
  GetNDofs :: nat
  GetDof :: nat
  IsTensorBasis :: "bool list"
  GetDofMap :: "int list"
  ElementToDofJ :: "int list"

datatype ElementDofOrdering = NATIVE | LEXICOGRAPHIC

record ElementRestriction =
  ne :: nat
  vdim :: nat
  byvdim :: bool
  ndofs :: nat
  dof :: nat
  offsets :: "nat list"
  indices :: "int list"
  gatherMap :: "int list"

text \<open>First loop nest of the constructor: count the local slots of each global dof.\<close>

definition count_slots :: "nat \<Rightarrow> nat \<Rightarrow> int list \<Rightarrow> nat list \<Rightarrow> nat list" where
  "count_slots n_e n_d elementMap offs0 =
     fold (\<lambda>e. fold (\<lambda>d offs.
             let sgid = elementMap ! (n_d * e + d);
                 gid = decode_index sgid
             in offs[gid + 1 := offs ! (gid + 1) + 1]) [0..<n_d]) [0..<n_e] offs0"

text \<open>Second loop: \<^verbatim>\<open>offsets[i] += offsets[i - 1]\<close> for \<open>i = 1, ..., ndofs\<close>.\<close>

definition aggregate_offsets :: "nat \<Rightarrow> nat list \<Rightarrow> nat list" where
  "aggregate_offsets n offs0 = fold (\<lambda>i offs. offs[i := offs ! i + offs ! (i - 1)]) [1..<n + 1] offs0"

text \<open>
  Third loop nest: the body for element \<open>e\<close> and slot \<open>d\<close>, on the triple of
  \<^verbatim>\<open>offsets\<close>, \<^verbatim>\<open>indices\<close> and \<^verbatim>\<open>gatherMap\<close>.
\<close>

definition fill_slot ::
  "bool \<Rightarrow> int list \<Rightarrow> nat \<Rightarrow> int list \<Rightarrow> nat \<Rightarrow> nat
     \<Rightarrow> nat list \<times> int list \<times> int list \<Rightarrow> nat list \<times> int list \<times> int list" where
  "fill_slot dof_reorder dof_map n_d elementMap e d = (\<lambda>(offs, inds, gmap).
     let sdid = (if dof_reorder then dof_map ! d else 0);
         did = (if \<not> dof_reorder then d else decode_index sdid);
         sgid = elementMap ! (n_d * e + did);
         gid = decode_index sgid;
         lid = n_d * e + d;
         plus = ((sgid \<ge> 0 \<and> sdid \<ge> 0) \<or> (sgid < 0 \<and> sdid < 0))
     in (offs[gid := offs ! gid + 1],
         inds[offs ! gid := (if plus then int lid else -1 - int lid)],
         gmap[lid := (if plus then int gid else -1 - int gid)]))"

definition fill_slots ::
  "bool \<Rightarrow> int list \<Rightarrow> nat \<Rightarrow> nat \<Rightarrow> int list
     \<Rightarrow> nat list \<times> int list \<times> int list \<Rightarrow> nat list \<times> int list \<times> int list" where
  "fill_slots dof_reorder dof_map n_e n_d elementMap st0 =
     fold (\<lambda>e. fold (fill_slot dof_reorder dof_map n_d elementMap e) [0..<n_d]) [0..<n_e] st0"

text \<open>
  Last loop: \<^verbatim>\<open>offsets[i] = offsets[i - 1]\<close> for \<open>i = ndofs, ..., 1\<close>, then
  \<^verbatim>\<open>offsets[0] = 0\<close>.
\<close>

definition shift_offsets :: "nat \<Rightarrow> nat list \<Rightarrow> nat list" where
  "shift_offsets n offs0 = (fold (\<lambda>i offs. offs[i := offs ! (i - 1)]) (rev [1..<n + 1]) offs0)[0 := 0]"

text \<open>
  The constructor. The arrays \<^verbatim>\<open>indices\<close> and \<^verbatim>\<open>gatherMap\<close> are allocated without
  being initialised, as is \<^verbatim>\<open>offsets\<close>: their first contents are the arbitrary
  value \<open>junk\<close>. A call of \<^verbatim>\<open>mfem_error\<close> or a failed \<^verbatim>\<open>MFEM_VERIFY\<close> aborts
  the construction. The end of the constructor, from the last loop on, takes the three
  arrays as the third loop nest leaves them.
\<close>

fun ElementRestriction_ctor_end ::
  "FiniteElementSpace \<Rightarrow> nat \<Rightarrow> nat list \<times> int list \<times> int list \<Rightarrow> ElementRestriction" where
  "ElementRestriction_ctor_end fes n_d (offs, inds, gmap) =
     \<lparr> ne = GetNE fes, vdim = GetVDim fes, byvdim = OrderingByVDIM fes,
       ndofs = GetNDofs fes, dof = n_d,
       offsets = shift_offsets (GetNDofs fes) offs, indices = inds, gatherMap = gmap \<rparr>"

definition ElementRestriction_ctor ::
  "int \<Rightarrow> FiniteElementSpace \<Rightarrow> ElementDofOrdering \<Rightarrow> error + ElementRestriction" where
  "ElementRestriction_ctor junk fes e_ordering =
     (let n_e = GetNE fes;
          n_dofs = GetNDofs fes;
          n_d = (if n_e > 0 then GetDof fes else 0);
          dof_reorder = (e_ordering = LEXICOGRAPHIC)
      in if dof_reorder \<and> n_e > 0 \<and> \<not> list_all (\<lambda>e. IsTensorBasis fes ! e) [0..<n_e]
         then Inl Not_suitable_for_lexicographic_ordering
         else if dof_reorder \<and> n_e > 0 \<and> \<not> length (GetDofMap fes) > 0
         then Inl Invalid_dof_map
         else
           let elementMap = ElementToDofJ fes;
               offs = fold (\<lambda>i offs. offs[i := 0]) [0..<n_dofs + 1]
                        (replicate (n_dofs + 1) (nat junk));
               offs = count_slots n_e n_d elementMap offs;
               offs = aggregate_offsets n_dofs offs
           in Inr (ElementRestriction_ctor_end fes n_d
                    (fill_slots dof_reorder (GetDofMap fes) n_e n_d elementMap
                       (offs, replicate (n_e * n_d) junk, replicate (n_e * n_d) junk))))"

text \<open>
  \<^verbatim>\<open>ElementRestriction::Mult\<close>: the stores into the local vector \<open>y\<close>, read from the
  global vector \<open>x\<close>.
\<close>

definition Mult_stores :: "ElementRestriction \<Rightarrow> 'a::uminus list \<Rightarrow> 'a store list" where
  "Mult_stores R x =
     (let nd = dof R; vd = vdim R; t = byvdim R
      in concat (map (\<lambda>i.
           let gid = gatherMap R ! i;
               plus = (gid \<ge> 0);
               j = (if plus then nat gid else nat (-1 - gid))
           in map (\<lambda>c.
                let dofValue = x ! Reshape2 (if t then vd else ndofs R)
                                     (if t then c else j) (if t then j else c)
                in (Reshape3 nd vd (i mod nd) c (i div nd),
                    \<lambda>_. if plus then dofValue else - dofValue)) [0..<vd])
         [0..<dof R * ne R]))"

definition Mult :: "ElementRestriction \<Rightarrow> 'a::uminus list \<Rightarrow> 'a list \<Rightarrow> 'a list" where
  "Mult R x y = run_stores (Mult_stores R x) y"

text \<open>
  \<^verbatim>\<open>ElementRestriction::MultTranspose\<close>: the stores into the global vector \<open>y\<close>, read
  from the local vector \<open>x\<close>. The inner loop accumulates into \<^verbatim>\<open>dofValue\<close> from 0.
\<close>

definition MultTranspose_stores ::
  "ElementRestriction \<Rightarrow> 'a::{zero,plus,uminus} list \<Rightarrow> 'a store list" where
  "MultTranspose_stores R x =
     (let nd = dof R; vd = vdim R; t = byvdim R
      in concat (map (\<lambda>i.
           let offset = offsets R ! i;
               nextOffset = offsets R ! (i + 1)
           in map (\<lambda>c.
                let dofValue = fold (\<lambda>j dofValue.
                      let idx_j = decode_index (indices R ! j)
                      in dofValue + (if indices R ! j \<ge> 0
                                     then x ! Reshape3 nd vd (idx_j mod nd) c (idx_j div nd)
                                     else - (x ! Reshape3 nd vd (idx_j mod nd) c (idx_j div nd))))
                      [offset..<nextOffset] 0
                in (Reshape2 (if t then vd else ndofs R)
                      (if t then c else i) (if t then i else c),
                    \<lambda>_. dofValue)) [0..<vd])
         [0..<ndofs R]))"

definition MultTranspose ::
  "ElementRestriction \<Rightarrow> 'a::{zero,plus,uminus} list \<Rightarrow> 'a list \<Rightarrow> 'a list" where
  "MultTranspose R x y = run_stores (MultTranspose_stores R x) y"

text \<open>
  The entries the claims speak of: entry \<open>(g, c)\<close> of a global vector and entry
  \<open>(d, c, e)\<close> of a local vector, through the views the kernels take of them.
\<close>

definition global_entry :: "ElementRestriction \<Rightarrow> 'a list \<Rightarrow> nat \<Rightarrow> nat \<Rightarrow> 'a" where
  "global_entry R x g c =
     x ! Reshape2 (if byvdim R then vdim R else ndofs R)
           (if byvdim R then c else g) (if byvdim R then g else c)"

definition local_entry :: "ElementRestriction \<Rightarrow> 'a list \<Rightarrow> nat \<Rightarrow> nat \<Rightarrow> nat \<Rightarrow> 'a" where
  "local_entry R y d c e = y ! Reshape3 (dof R) (vdim R) d c e"

text \<open>
  The sum the claim on the transpose speaks of, in the words of the specification: over
  the entries \<open>j\<close> of the bucket \<open>offsets[g] \<le> j < offsets[g + 1]\<close> of \<^verbatim>\<open>indices\<close>, of
  the local value at the decoded slot, negated when the entry is encoded negative. The
  terms are added from the left, starting from 0.
\<close>

definition slot_value :: "ElementRestriction \<Rightarrow> 'a list \<Rightarrow> nat \<Rightarrow> nat \<Rightarrow> 'a" where
  "slot_value R x s c = local_entry R x (s mod dof R) c (s div dof R)"

definition signed_slot_value ::
  "ElementRestriction \<Rightarrow> 'a::uminus list \<Rightarrow> int \<Rightarrow> nat \<Rightarrow> 'a" where
  "signed_slot_value R x v c =
     (if v < 0 then - slot_value R x (nat (-1 - v)) c else slot_value R x (nat v) c)"

definition bucket_sum ::
  "ElementRestriction \<Rightarrow> 'a::{zero,plus,uminus} list \<Rightarrow> nat \<Rightarrow> nat \<Rightarrow> 'a" where
  "bucket_sum R x g c =
     foldl (+) 0 (map (\<lambda>j. signed_slot_value R x (indices R ! j) c)
                      [offsets R ! g..<offsets R ! (g + 1)])"

section \<open>Face restrictions\<close>

text \<open>
  Modelled from the spec: what the face restrictions read from the mesh and the space
  besides the element-to-dof table (the Mesh Topology Provider; its classes are not part
  of the sources): for each face the quadruple \<open>(e1, e2, inf1, inf2)\<close> of the adjacent
  elements and the face information, with \<open>e2 < 0\<close> and \<open>inf2 < 0\<close> on a boundary face
  (\<open>orientation = inf % 64\<close>, \<open>face_id = inf / 64\<close>); the space dimension; whether the
  mesh is conforming; whether the basis is a Gauss-Lobatto or Bernstein tensor basis; the
  number of faces of each type; the number of dofs of the face (trace) element; for each
  face whether its element is a tensor-basis element; and the order of the elements.
\<close>

datatype FaceType = Interior | Boundary

datatype L2FaceValues = SingleValued | DoubleValued

record MeshFaces =
  Faces :: "(int \<times> int \<times> int \<times> int) list"
  SpaceDimension :: int
  Conforming :: bool
  BasisSupported :: bool
  GetNFbyType :: "FaceType \<Rightarrow> nat"
  GetFaceDof :: nat
  FaceIsTensorBasis :: "bool list"
  GetOrder :: nat

text \<open>A \<^verbatim>\<open>for\<close> loop whose body may abort the program.\<close>

fun fold_err :: "('a \<Rightarrow> 's \<Rightarrow> error + 's) \<Rightarrow> 'a list \<Rightarrow> 's \<Rightarrow> error + 's" where
  "fold_err body [] s = Inr s"
| "fold_err body (a # as) s =
     (case body a s of Inl err \<Rightarrow> Inl err | Inr s' \<Rightarrow> fold_err body as s')"

text \<open>
  \<^verbatim>\<open>GetFaceDofs\<close> writes the element-local dofs of a reference face into \<^verbatim>\<open>faceMap\<close>;
  for a dimension or a face outside the cases of its \<^verbatim>\<open>switch\<close> statements it leaves
  the array as it is.
\<close>

definition GetFaceDofs :: "int \<Rightarrow> int \<Rightarrow> nat \<Rightarrow> int list \<Rightarrow> int list" where
  "GetFaceDofs dim' face_id dof1d faceMap =
     (let n = int dof1d;
          line = (\<lambda>v. fold (\<lambda>i fm. fm[i := v (int i)]) [0..<dof1d] faceMap);
          grid = (\<lambda>v. fold (\<lambda>i. fold (\<lambda>j fm. fm[i + j * dof1d := v (int i) (int j)])
                                   [0..<dof1d]) [0..<dof1d] faceMap)
      in if dim' = 1 then
           (if face_id = 0 then faceMap[0 := 0]
            else if face_id = 1 then faceMap[0 := n - 1]
            else faceMap)
         else if dim' = 2 then
           (if face_id = 0 then line (\<lambda>i. i)
            else if face_id = 1 then line (\<lambda>i. n - 1 + i * n)
            else if face_id = 2 then line (\<lambda>i. (n - 1) * n + i)
            else if face_id = 3 then line (\<lambda>i. i * n)
            else faceMap)
         else if dim' = 3 then
           (if face_id = 0 then grid (\<lambda>i j. i + j * n)
            else if face_id = 1 then grid (\<lambda>i j. i + j * n * n)
            else if face_id = 2 then grid (\<lambda>i j. n - 1 + i * n + j * n * n)
            else if face_id = 3 then grid (\<lambda>i j. (n - 1) * n + i + j * n * n)
            else if face_id = 4 then grid (\<lambda>i j. i * n + j * n * n)
            else if face_id = 5 then grid (\<lambda>i j. (n - 1) * n * n + i + j * n)
            else faceMap)
         else faceMap)"

subsection \<open>Continuous face restriction\<close>






subsection \<open>Discontinuous face restriction\<close>

record L2FaceRestriction =
  l2_nf :: nat
  l2_ne :: nat
  l2_vdim :: nat
  l2_byvdim :: bool
  l2_ndofs :: nat
  l2_dof :: nat
  l2_elemDofs :: nat
  l2_m :: L2FaceValues
  l2_nfdofs :: nat
  l2_scatter_indices1 :: "int list"
  l2_scatter_indices2 :: "int list"
  l2_offsets :: "nat list"
  l2_gather_indices :: "nat list"

text \<open>
  The condition that selects a face in the loop that computes the scatter indices, and
  the one in the three loops that compute the gather indices.
\<close>

definition scatter_selected :: "FaceType \<Rightarrow> int \<Rightarrow> bool" where
  "scatter_selected type e2 = ((type = Interior \<and> e2 \<ge> 0) \<or> (type = Boundary \<and> e2 < 0))"

definition gather_selected :: "FaceType \<Rightarrow> int \<Rightarrow> int \<Rightarrow> bool" where
  "gather_selected type e2 inf2 =
     ((type = Interior \<and> (e2 \<ge> 0 \<or> (e2 < 0 \<and> inf2 \<ge> 0)))
      \<or> (type = Boundary \<and> e2 < 0 \<and> inf2 < 0))"

text \<open>
  Body of the loop over the faces that computes the scatter indices, on the counter
  \<^verbatim>\<open>f_ind\<close>, the two face maps (declared outside the loop) and the two arrays of scatter
  indices. The ordering is lexicographic here: the constructor has aborted otherwise.
\<close>

definition l2_scatter_face ::
  "FaceType \<Rightarrow> L2FaceValues \<Rightarrow> int \<Rightarrow> nat \<Rightarrow> nat \<Rightarrow> nat \<Rightarrow> int list
     \<Rightarrow> int \<times> int \<times> int \<times> int
     \<Rightarrow> nat \<times> int list \<times> int list \<times> int list \<times> int list
     \<Rightarrow> error + nat \<times> int list \<times> int list \<times> int list \<times> int list" where
  "l2_scatter_face type m dim' dof1d elem_dofs n_d elementMap face =
     (\<lambda>(f_ind, faceMap1, faceMap2, sc1, sc2).
       case face of (e1, e2, inf1, inf2) \<Rightarrow>
       let orientation = inf1 smod 64;
           face_id1 = inf1 sdiv 64;
           faceMap1 = GetFaceDofs dim' face_id1 dof1d faceMap1;
           orientation = inf2 smod 64;
           face_id2 = inf2 sdiv 64;
           faceMap2 = GetFaceDofs dim' face_id2 dof1d faceMap2
       in if scatter_selected type e2 then
            let sc1 = fold (\<lambda>d sc1.
                        let face_dof = faceMap1 ! d;
                            did = face_dof;
                            gid = elementMap ! nat (e1 * int elem_dofs + did);
                            lid = n_d * f_ind + d
                        in sc1[lid := gid]) [0..<n_d] sc1
            in case (if m = DoubleValued then
                       fold_err (\<lambda>d sc2.
                         if type = Interior \<and> e2 \<ge> 0 then
                           (case PermuteFaceL2 dim' face_id1 face_id2 orientation
                                   (int dof1d) (int d) of
                              Inl err \<Rightarrow> Inl err
                            | Inr pd \<Rightarrow>
                                let face_dof = faceMap2 ! nat pd;
                                    did = face_dof;
                                    gid = elementMap ! nat (e2 * int elem_dofs + did);
                                    lid = n_d * f_ind + d
                                in Inr (sc2[lid := gid]))
                         else if type = Boundary \<and> e2 < 0 then
                           (let lid = n_d * f_ind + d in Inr (sc2[lid := - 1]))
                         else Inr sc2) [0..<n_d] sc2
                     else Inr sc2) of
                 Inl err \<Rightarrow> Inl err
               | Inr sc2 \<Rightarrow> Inr (f_ind + 1, faceMap1, faceMap2, sc1, sc2)
          else Inr (f_ind, faceMap1, faceMap2, sc1, sc2))"

text \<open>Body of the loop over the faces that counts the face-local slots of each global dof.\<close>

definition l2_count_face ::
  "FaceType \<Rightarrow> L2FaceValues \<Rightarrow> int \<Rightarrow> nat \<Rightarrow> nat \<Rightarrow> nat \<Rightarrow> int list
     \<Rightarrow> int \<times> int \<times> int \<times> int
     \<Rightarrow> nat \<times> int list \<times> int list \<times> nat list
     \<Rightarrow> error + nat \<times> int list \<times> int list \<times> nat list" where
  "l2_count_face type m dim' dof1d elem_dofs n_d elementMap face =
     (\<lambda>(f_ind, faceMap1, faceMap2, offs).
       case face of (e1, e2, inf1, inf2) \<Rightarrow>
       if gather_selected type e2 inf2 then
         let orientation = inf1 smod 64;
             face_id1 = inf1 sdiv 64;
             faceMap1 = GetFaceDofs dim' face_id1 dof1d faceMap1;
             orientation = inf2 smod 64;
             face_id2 = inf2 sdiv 64;
             faceMap2 = GetFaceDofs dim' face_id2 dof1d faceMap2;
             offs = fold (\<lambda>d offs.
                      let did = faceMap1 ! d;
                          gid = elementMap ! nat (e1 * int elem_dofs + did)
                      in offs[nat (gid + 1) := offs ! nat (gid + 1) + 1]) [0..<n_d] offs
         in case (if m = DoubleValued then
                    fold_err (\<lambda>d offs.
                      if type = Interior \<and> e2 \<ge> 0 then
                        (case PermuteFaceL2 dim' face_id1 face_id2 orientation
                                (int dof1d) (int d) of
                           Inl err \<Rightarrow> Inl err
                         | Inr pd \<Rightarrow>
                             let did = faceMap2 ! nat pd;
                                 gid = elementMap ! nat (e2 * int elem_dofs + did)
                             in Inr (offs[nat (gid + 1) := offs ! nat (gid + 1) + 1]))
                      else Inr offs) [0..<n_d] offs
                  else Inr offs) of
              Inl err \<Rightarrow> Inl err
            | Inr offs \<Rightarrow> Inr (f_ind + 1, faceMap1, faceMap2, offs)
       else Inr (f_ind, faceMap1, faceMap2, offs))"

text \<open>Body of the loop over the faces that fills \<^verbatim>\<open>gather_indices\<close>.\<close>

definition l2_gather_face ::
  "FaceType \<Rightarrow> L2FaceValues \<Rightarrow> int \<Rightarrow> nat \<Rightarrow> nat \<Rightarrow> nat \<Rightarrow> nat \<Rightarrow> int list
     \<Rightarrow> int \<times> int \<times> int \<times> int
     \<Rightarrow> nat \<times> int list \<times> int list \<times> nat list \<times> nat list
     \<Rightarrow> error + nat \<times> int list \<times> int list \<times> nat list \<times> nat list" where
  "l2_gather_face type m dim' dof1d elem_dofs n_d n_fdofs elementMap face =
     (\<lambda>(f_ind, faceMap1, faceMap2, offs, gath).
       case face of (e1, e2, inf1, inf2) \<Rightarrow>
       if gather_selected type e2 inf2 then
         let orientation = inf1 smod 64;
             face_id1 = inf1 sdiv 64;
             faceMap1 = GetFaceDofs dim' face_id1 dof1d faceMap1;
             orientation = inf2 smod 64;
             face_id2 = inf2 sdiv 64;
             faceMap2 = GetFaceDofs dim' face_id2 dof1d faceMap2;
             (offs, gath) = fold (\<lambda>d (offs, gath).
                      let did = faceMap1 ! d;
                          gid = elementMap ! nat (e1 * int elem_dofs + did);
                          lid = n_d * f_ind + d
                      in (offs[nat gid := offs ! nat gid + 1],
                          gath[offs ! nat gid := lid])) [0..<n_d] (offs, gath)
         in case (if m = DoubleValued then
                    fold_err (\<lambda>d (offs, gath).
                      if type = Interior \<and> e2 \<ge> 0 then
                        (case PermuteFaceL2 dim' face_id1 face_id2 orientation
                                (int dof1d) (int d) of
                           Inl err \<Rightarrow> Inl err
                         | Inr pd \<Rightarrow>
                             let did = faceMap2 ! nat pd;
                                 gid = elementMap ! nat (e2 * int elem_dofs + did);
                                 lid = n_d * f_ind + d
                             in Inr (offs[nat gid := offs ! nat gid + 1],
                                     gath[offs ! nat gid := n_fdofs + lid]))
                      else Inr (offs, gath)) [0..<n_d] (offs, gath)
                  else Inr (offs, gath)) of
              Inl err \<Rightarrow> Inl err
            | Inr (offs, gath) \<Rightarrow> Inr (f_ind + 1, faceMap1, faceMap2, offs, gath)
       else Inr (f_ind, faceMap1, faceMap2, offs, gath))"

text \<open>
  The constructor of the discontinuous face restriction. The arrays are allocated
  without being initialised: their first contents are the arbitrary value \<open>junk\<close>. When
  \<open>nf = 0\<close> the constructor returns before it has written any of them. The constructor
  is written in four parts, each taking the outcome of the loop over the faces before it
  and starting with the test \<^verbatim>\<open>MFEM_VERIFY(f_ind==nf, ...)\<close> that follows that loop:
  the end of the constructor, the loop that fills \<^verbatim>\<open>gather_indices\<close>, the loop that
  counts, and the beginning with the loop that computes the scatter indices.
\<close>

fun l2_ctor_finish ::
  "L2FaceRestriction \<Rightarrow> int list \<Rightarrow> int list
     \<Rightarrow> error + nat \<times> int list \<times> int list \<times> nat list \<times> nat list
     \<Rightarrow> error + L2FaceRestriction" where
  "l2_ctor_finish R sc1 sc2 (Inl err) = Inl err"
| "l2_ctor_finish R sc1 sc2 (Inr (f_ind, faceMap1, faceMap2, offs, gath)) =
     (if f_ind \<noteq> l2_nf R then Inl Unexpected_number_of_faces
      else Inr (R \<lparr> l2_scatter_indices1 := sc1, l2_scatter_indices2 := sc2,
                    l2_offsets := shift_offsets (l2_ndofs R) offs,
                    l2_gather_indices := gath \<rparr>))"

fun l2_ctor_gather ::
  "L2FaceRestriction \<Rightarrow> FaceType \<Rightarrow> int \<Rightarrow> nat \<Rightarrow> int list
     \<Rightarrow> (int \<times> int \<times> int \<times> int) list \<Rightarrow> int list \<Rightarrow> int list
     \<Rightarrow> error + nat \<times> int list \<times> int list \<times> nat list
     \<Rightarrow> error + L2FaceRestriction" where
  "l2_ctor_gather R type dim' dof1d elementMap faces sc1 sc2 (Inl err) = Inl err"
| "l2_ctor_gather R type dim' dof1d elementMap faces sc1 sc2
       (Inr (f_ind, faceMap1, faceMap2, offs)) =
     (if f_ind \<noteq> l2_nf R then Inl Unexpected_number_of_faces
      else l2_ctor_finish R sc1 sc2
             (fold_err (l2_gather_face type (l2_m R) dim' dof1d (l2_elemDofs R) (l2_dof R)
                          (l2_nfdofs R) elementMap)
                faces (0, faceMap1, faceMap2, aggregate_offsets (l2_ndofs R) offs,
                       l2_gather_indices R)))"

fun l2_ctor_count ::
  "L2FaceRestriction \<Rightarrow> FaceType \<Rightarrow> int \<Rightarrow> nat \<Rightarrow> int list
     \<Rightarrow> (int \<times> int \<times> int \<times> int) list
     \<Rightarrow> error + nat \<times> int list \<times> int list \<times> int list \<times> int list
     \<Rightarrow> error + L2FaceRestriction" where
  "l2_ctor_count R type dim' dof1d elementMap faces (Inl err) = Inl err"
| "l2_ctor_count R type dim' dof1d elementMap faces
       (Inr (f_ind, faceMap1, faceMap2, sc1, sc2)) =
     (if f_ind \<noteq> l2_nf R then Inl Unexpected_number_of_faces
      else l2_ctor_gather R type dim' dof1d elementMap faces sc1 sc2
             (fold_err (l2_count_face type (l2_m R) dim' dof1d (l2_elemDofs R) (l2_dof R)
                          elementMap)
                faces (0, faceMap1, faceMap2,
                       fold (\<lambda>i offs. offs[i := 0]) [0..<l2_ndofs R + 1] (l2_offsets R))))"

definition L2FaceRestriction_ctor ::
  "int \<Rightarrow> FiniteElementSpace \<Rightarrow> MeshFaces \<Rightarrow> ElementDofOrdering \<Rightarrow> FaceType
     \<Rightarrow> L2FaceValues \<Rightarrow> error + L2FaceRestriction" where
  "L2FaceRestriction_ctor junk fes mesh e_ordering type m =
     (let n_f = GetNFbyType mesh type;
          n_dofs = GetNDofs fes;
          n_d = (if n_f > 0 then GetFaceDof mesh else 0);
          R = \<lparr> l2_nf = n_f, l2_ne = GetNE fes, l2_vdim = GetVDim fes,
                l2_byvdim = OrderingByVDIM fes, l2_ndofs = n_dofs, l2_dof = n_d,
                l2_elemDofs = GetDof fes, l2_m = m, l2_nfdofs = n_f * n_d,
                l2_scatter_indices1 = replicate (n_f * n_d) junk,
                l2_scatter_indices2 = replicate (if m = DoubleValued then n_f * n_d else 0) junk,
                l2_offsets = replicate (n_dofs + 1) (nat junk),
                l2_gather_indices = replicate ((if m = DoubleValued then 2 else 1) * n_f * n_d)
                                      (nat junk) \<rparr>;
          dof_reorder = (e_ordering = LEXICOGRAPHIC)
      in if \<not> BasisSupported mesh then Inl Unsupported_basis
         else if \<not> Conforming mesh then Inl Nonconforming_mesh
         else if n_f = 0 then Inr R
         else if \<not> dof_reorder then Inl Not_implemented_for_this_element
         else if \<not> list_all (\<lambda>f. FaceIsTensorBasis mesh ! f) [0..<length (Faces mesh)]
         then Inl Not_suitable_for_lexicographic_ordering
         else
           let elementMap = ElementToDofJ fes;
               dof1d = GetOrder mesh + 1;
               elem_dofs = GetDof fes;
               dim' = SpaceDimension mesh
           in l2_ctor_count R type dim' dof1d elementMap (Faces mesh)
                (fold_err (l2_scatter_face type m dim' dof1d elem_dofs n_d elementMap)
                   (Faces mesh)
                   (0, replicate n_d junk, replicate n_d junk,
                    l2_scatter_indices1 R, l2_scatter_indices2 R)))"

text \<open>
  \<^verbatim>\<open>L2FaceRestriction::Mult\<close>: the stores into the local face vector \<open>y\<close>. In the
  double-valued case the view of \<open>y\<close> has the dimensions \<open>(nd, vd, 2, nf)\<close>; the value
  of side 2 is \<^verbatim>\<open>idx2==-1 ? 0.0 : d_x(t?c:idx2, t?idx2:c)\<close>.
\<close>

definition L2Face_Mult_stores :: "L2FaceRestriction \<Rightarrow> 'a::zero list \<Rightarrow> 'a store list" where
  "L2Face_Mult_stores R x =
     (let nd = l2_dof R; vd = l2_vdim R; t = l2_byvdim R
      in if l2_m R = DoubleValued then
           concat (map (\<lambda>i.
             let dof = i mod nd;
                 face = i div nd;
                 idx1 = l2_scatter_indices1 R ! i;
                 idx2 = l2_scatter_indices2 R ! i
             in map (\<lambda>c. (Reshape4 nd vd 2 dof c 0 face,
                         \<lambda>_. x ! Reshape2 (if t then vd else l2_ndofs R)
                                   (if t then c else nat idx1) (if t then nat idx1 else c)))
                    [0..<vd]
                @ map (\<lambda>c. (Reshape4 nd vd 2 dof c 1 face,
                            \<lambda>_. if idx2 = - 1 then 0
                                 else x ! Reshape2 (if t then vd else l2_ndofs R)
                                   (if t then c else nat idx2) (if t then nat idx2 else c)))
                    [0..<vd])
             [0..<l2_nfdofs R])
         else
           concat (map (\<lambda>i.
             let dof = i mod nd;
                 face = i div nd;
                 idx1 = l2_scatter_indices1 R ! i
             in map (\<lambda>c. (Reshape3 nd vd dof c face,
                         \<lambda>_. x ! Reshape2 (if t then vd else l2_ndofs R)
                                   (if t then c else nat idx1) (if t then nat idx1 else c)))
                    [0..<vd])
             [0..<l2_nfdofs R]))"

definition L2Face_Mult :: "L2FaceRestriction \<Rightarrow> 'a::zero list \<Rightarrow> 'a list \<Rightarrow> 'a list" where
  "L2Face_Mult R x y = run_stores (L2Face_Mult_stores R x) y"

text \<open>
  The global dof indices with which \<^verbatim>\<open>L2FaceRestriction::Mult\<close> reads the vector \<open>x\<close>
  for side 2 in the double-valued case, in program order: the conditional expression
  evaluates \<^verbatim>\<open>d_x\<close> only when \<^verbatim>\<open>idx2\<close> is not \<open>-1\<close>.
\<close>

definition L2Face_Mult_reads2 :: "L2FaceRestriction \<Rightarrow> int list" where
  "L2Face_Mult_reads2 R =
     concat (map (\<lambda>i.
       let idx2 = l2_scatter_indices2 R ! i
       in concat (map (\<lambda>c. if idx2 = - 1 then [] else [idx2]) [0..<l2_vdim R]))
       [0..<l2_nfdofs R])"

text \<open>
  \<^verbatim>\<open>AddNnz(iE, I, dofs)\<close> is \<^verbatim>\<open>AtomicAdd(I[iE], dofs)\<close>: its first argument subscripts
  the row array without any test. The following lists are the subscripts with which
  \<^verbatim>\<open>FillI\<close> and \<^verbatim>\<open>FillJAndData\<close> of the discontinuous face restriction call it, in
  program order.
\<close>

definition L2Face_FillI_rows :: "L2FaceRestriction \<Rightarrow> int list" where
  "L2Face_FillI_rows R =
     (let face_dofs = l2_dof R
      in concat (map (\<lambda>fdof.
           let iE1 = l2_scatter_indices1 R ! fdof;
               iE2 = l2_scatter_indices2 R ! fdof
           in [iE1, iE2]) [0..<l2_nf R * face_dofs]))"

definition L2Face_FillJAndData_rows :: "L2FaceRestriction \<Rightarrow> int list" where
  "L2Face_FillJAndData_rows R =
     (let face_dofs = l2_dof R
      in concat (map (\<lambda>fdof.
           let f = fdof div face_dofs;
               iF = fdof mod face_dofs;
               iE1 = l2_scatter_indices1 R ! (f * face_dofs + iF);
               iE2 = l2_scatter_indices2 R ! (f * face_dofs + iF)
           in [iE1, iE2]) [0..<l2_nf R * face_dofs]))"

text \<open>
  The subscripts \<^verbatim>\<open>(iB2, jB2, e2)\<close> with which the double-valued branch of
  \<^verbatim>\<open>AddFaceMatricesToElementMatrices\<close> addresses the element matrices for side 2, in
  program order. The only test on \<^verbatim>\<open>e2\<close> is \<^verbatim>\<open>e2 < NE\<close>.
\<close>

definition L2Face_AddFaceMatrices_subscripts2 :: "L2FaceRestriction \<Rightarrow> (int \<times> int \<times> int) list" where
  "L2Face_AddFaceMatrices_subscripts2 R =
     (let face_dofs = l2_dof R;
          elem_dofs = int (l2_elemDofs R);
          NE = int (l2_ne R)
      in concat (map (\<lambda>f.
           let e2 = (l2_scatter_indices2 R ! (f * face_dofs)) sdiv elem_dofs
           in if e2 < NE then
                concat (map (\<lambda>j.
                  let jB2 = (l2_scatter_indices2 R ! (f * face_dofs + j)) smod elem_dofs
                  in map (\<lambda>i.
                       let iB2 = (l2_scatter_indices2 R ! (f * face_dofs + i)) smod elem_dofs
                       in (iB2, jB2, e2)) [0..<face_dofs]) [0..<face_dofs])
              else []) [0..<l2_nf R]))"

text \<open>
  The scenario of the claims on the boundary sentinel: a mesh of one quadrilateral with
  a discontinuous space of order 1 (4 dofs, numbered lexicographically), and its four
  boundary faces (south, east, north, west) with orientation 0.
\<close>

definition one_quad_space :: FiniteElementSpace where
  "one_quad_space = \<lparr> GetNE = 1, GetVDim = 1, OrderingByVDIM = False, GetNDofs = 4, GetDof = 4,
       IsTensorBasis = [True], GetDofMap = [], ElementToDofJ = [0, 1, 2, 3] \<rparr>"

definition one_quad_faces :: MeshFaces where
  "one_quad_faces = \<lparr> Faces = [(0, - 1, 0, - 1), (0, - 1, 64, - 1), (0, - 1, 128, - 1),
                               (0, - 1, 192, - 1)],
       SpaceDimension = 2, Conforming = True, BasisSupported = True,
       GetNFbyType = (\<lambda>type. case type of Interior \<Rightarrow> 0 | Boundary \<Rightarrow> 4),
       GetFaceDof = 2, FaceIsTensorBasis = [True, True, True, True], GetOrder = 1 \<rparr>"

definition one_quad_boundary_restriction :: L2FaceRestriction where
  "one_quad_boundary_restriction =
     \<lparr> l2_nf = 4, l2_ne = 1, l2_vdim = 1, l2_byvdim = False, l2_ndofs = 4, l2_dof = 2,
       l2_elemDofs = 4, l2_m = DoubleValued, l2_nfdofs = 8,
       l2_scatter_indices1 = [0, 1, 1, 3, 2, 3, 0, 2],
       l2_scatter_indices2 = [- 1, - 1, - 1, - 1, - 1, - 1, - 1, - 1],
       l2_offsets = [0, 2, 4, 6, 8],
       l2_gather_indices = [0, 6, 1, 2, 4, 7, 3, 5, 0, 0, 0, 0, 0, 0, 0, 0] \<rparr>"

subsection \<open>Constructor of the continuous face restriction\<close>
















section \<open>Counting the nonzero entries of the assembled matrix\<close>

text \<open>
  \<^verbatim>\<open>ElementRestriction::FillI\<close> and the functions it calls are modelled with their
  array bounds: a read or a write is a value only when its subscript lies in the array,
  and the subscripts are used as the source uses them, the entries of \<^verbatim>\<open>gatherMap\<close> and
  \<^verbatim>\<open>indices\<close> without decoding a sign.
\<close>

fun bind_err :: "error + 'a \<Rightarrow> ('a \<Rightarrow> error + 'b) \<Rightarrow> error + 'b" where
  "bind_err (Inl err) f = Inl err"
| "bind_err (Inr v) f = f v"

definition subscript :: "'a list \<Rightarrow> int \<Rightarrow> error + 'a" where
  "subscript xs i =
     (if 0 \<le> i \<and> i < int (length xs) then Inr (xs ! nat i) else Inl Subscript_out_of_range)"

definition assign :: "'a list \<Rightarrow> int \<Rightarrow> 'a \<Rightarrow> error + 'a list" where
  "assign xs i v =
     (if 0 \<le> i \<and> i < int (length xs) then Inr (xs[nat i := v])
      else Inl Subscript_out_of_range)"

text \<open>
  \<^verbatim>\<open>GetMinElt\<close> builds the intersection of two lists of elements in the buffer
  \<^verbatim>\<open>inter\<close> and returns its minimum, starting from \<^verbatim>\<open>inter[0]\<close>. The capacity
  \<^verbatim>\<open>MaxNbNbr\<close> of the buffers is a template parameter whose value is not part of the
  sources, and so a parameter here. The buffer \<^verbatim>\<open>inter\<close> is not initialised: its first
  contents are the arbitrary value \<open>junk\<close>.
\<close>

definition GetMinElt :: "nat \<Rightarrow> int \<Rightarrow> int list \<Rightarrow> int \<Rightarrow> int list \<Rightarrow> int \<Rightarrow> error + int" where
  "GetMinElt MaxNbNbr junk my_elts nbElts nbr_elts nbrNbElts =
     bind_err
       (fold_err (\<lambda>i (inter, cpt).
          bind_err (subscript my_elts (int i)) (\<lambda>e_i.
            fold_err (\<lambda>j (inter, cpt).
               bind_err (subscript nbr_elts (int j)) (\<lambda>e_j.
                 if e_i = e_j
                 then bind_err (assign inter (int cpt) e_i) (\<lambda>inter. Inr (inter, cpt + 1))
                 else Inr (inter, cpt)))
              [0..<nat nbrNbElts] (inter, cpt)))
          [0..<nat nbElts] (replicate MaxNbNbr junk, 0 :: nat))
       (\<lambda>(inter, cpt).
          bind_err (subscript inter 0) (\<lambda>min0.
            fold_err (\<lambda>i m. bind_err (subscript inter (int i))
                                 (\<lambda>v. Inr (if v < m then v else m)))
              [1..<cpt] min0))"

text \<open>
  \<^verbatim>\<open>GetAndIncrementNnzIndex(i_L, I)\<close> is \<^verbatim>\<open>AtomicAdd(I[i_L], 1)\<close>: it returns the old
  entry and increments it.
\<close>

definition GetAndIncrementNnzIndex :: "int \<Rightarrow> nat list \<Rightarrow> error + nat \<times> nat list" where
  "GetAndIncrementNnzIndex i_L I =
     bind_err (subscript I i_L) (\<lambda>ind.
     bind_err (assign I i_L (ind + 1)) (\<lambda>I. Inr (ind, I)))"

text \<open>
  The loops over \<^verbatim>\<open>e_i\<close> and \<^verbatim>\<open>e_j\<close> of \<^verbatim>\<open>FillI\<close>, which write the elements of the
  slots in the bucket of a global dof into the buffer \<^verbatim>\<open>i_elts\<close> or \<^verbatim>\<open>j_elts\<close>.
\<close>

definition bucket_elts :: "ElementRestriction \<Rightarrow> nat \<Rightarrow> int \<Rightarrow> int list \<Rightarrow> error + int list" where
  "bucket_elts R offset nbElts elts =
     fold_err (\<lambda>e_i elts.
        bind_err (subscript (indices R) (int (offset + e_i))) (\<lambda>i_E.
          assign elts (int e_i) (i_E sdiv int (dof R))))
       [0..<nat nbElts] elts"

text \<open>
  The statements of the loop over \<open>i\<close> that precede the loop over \<open>j\<close>: they give the
  row \<^verbatim>\<open>i_L\<close>, the size \<^verbatim>\<open>i_nbElts\<close> of its bucket and the buffer \<^verbatim>\<open>i_elts\<close>.
\<close>

definition FillI_row_head ::
  "nat \<Rightarrow> int \<Rightarrow> ElementRestriction \<Rightarrow> nat \<Rightarrow> nat \<Rightarrow> error + int \<times> int \<times> int list" where
  "FillI_row_head MaxNbNbr junk R e i =
     (let elt_dofs = dof R;
          i_E = e * elt_dofs + i
      in bind_err (subscript (gatherMap R) (int i_E)) (\<lambda>i_L.
         bind_err (subscript (offsets R) i_L) (\<lambda>i_offset.
         bind_err (subscript (offsets R) (i_L + 1)) (\<lambda>i_nextOffset.
           let i_nbElts = int i_nextOffset - int i_offset
           in bind_err (bucket_elts R i_offset i_nbElts (replicate MaxNbNbr junk))
                (\<lambda>i_elts. Inr (i_L, i_nbElts, i_elts))))))"

text \<open>The body of the loop over \<open>j\<close>, on the row counters \<open>I\<close>.\<close>

definition FillI_col ::
  "nat \<Rightarrow> int \<Rightarrow> ElementRestriction \<Rightarrow> nat \<Rightarrow> int \<times> int \<times> int list \<Rightarrow> nat \<Rightarrow> nat list
     \<Rightarrow> error + nat list" where
  "FillI_col MaxNbNbr junk R e head j I =
     (case head of (i_L, i_nbElts, i_elts) \<Rightarrow>
      let elt_dofs = dof R;
          j_E = e * elt_dofs + j
      in bind_err (subscript (gatherMap R) (int j_E)) (\<lambda>j_L.
         bind_err (subscript (offsets R) j_L) (\<lambda>j_offset.
         bind_err (subscript (offsets R) (j_L + 1)) (\<lambda>j_nextOffset.
           let j_nbElts = int j_nextOffset - int j_offset
           in if i_nbElts = 1 \<or> j_nbElts = 1
              then bind_err (GetAndIncrementNnzIndex i_L I) (\<lambda>(ind, I). Inr I)
              else
                bind_err (bucket_elts R j_offset j_nbElts (replicate MaxNbNbr junk))
                  (\<lambda>j_elts.
                bind_err (GetMinElt MaxNbNbr junk i_elts i_nbElts j_elts j_nbElts)
                  (\<lambda>min_e.
                   if int e = min_e
                   then bind_err (GetAndIncrementNnzIndex i_L I) (\<lambda>(ind, I). Inr I)
                   else Inr I))))))"

text \<open>
  The body of the loop over \<open>i\<close>, and the single iteration \<open>(e, i, j)\<close> of the loop
  nest: what the iteration for \<open>j\<close> does to the row counters \<open>I\<close> after the statements
  that precede the loop over \<open>j\<close>.
\<close>

definition FillI_row ::
  "nat \<Rightarrow> int \<Rightarrow> ElementRestriction \<Rightarrow> nat \<Rightarrow> nat \<Rightarrow> nat list \<Rightarrow> error + nat list" where
  "FillI_row MaxNbNbr junk R e i I =
     bind_err (FillI_row_head MaxNbNbr junk R e i) (\<lambda>head.
       fold_err (FillI_col MaxNbNbr junk R e head) [0..<dof R] I)"


text \<open>
  \<^verbatim>\<open>ElementRestriction::FillI\<close>: the row counters are set to 0, the loop nest counts,
  and the last loop turns the counts into row offsets; the function returns the last
  entry, the number of nonzero entries, and leaves the row offsets in \<open>I\<close>.
\<close>

definition FillI :: "nat \<Rightarrow> int \<Rightarrow> ElementRestriction \<Rightarrow> nat list \<Rightarrow> error + nat \<times> nat list" where
  "FillI MaxNbNbr junk R I0 =
     (let all_dofs = ndofs R;
          vd = vdim R;
          elt_dofs = dof R;
          nTdofs = vd * all_dofs
      in bind_err (fold_err (\<lambda>i_L I. assign I (int i_L) 0) [0..<vd * all_dofs + 1] I0) (\<lambda>I.
         bind_err (fold_err (\<lambda>e. fold_err (FillI_row MaxNbNbr junk R e) [0..<elt_dofs])
                     [0..<ne R] I) (\<lambda>h_I.
         bind_err (fold_err (\<lambda>i (h_I, sum).
                       bind_err (subscript h_I (int i)) (\<lambda>nnz.
                       bind_err (assign h_I (int i) sum) (\<lambda>h_I. Inr (h_I, sum + nnz))))
                     [0..<nTdofs] (h_I, 0)) (\<lambda>(h_I, sum).
         bind_err (assign h_I (int nTdofs) sum) (\<lambda>h_I.
         bind_err (subscript h_I (int nTdofs)) (\<lambda>nnz. Inr (nnz, h_I)))))))"

section \<open>Vocabulary of the statements on the constructed element restriction\<close>

text \<open>
  The number of the local slots \<open>k < n\<close> whose global dof \<open>g k\<close> is \<open>i\<close>, and the
  number of those whose global dof is below \<open>i\<close>.
\<close>

definition slot_count :: "(nat \<Rightarrow> nat) \<Rightarrow> nat \<Rightarrow> nat \<Rightarrow> nat" where
  "slot_count g n i = length (filter (\<lambda>k. g k = i) [0..<n])"

definition slots_below :: "(nat \<Rightarrow> nat) \<Rightarrow> nat \<Rightarrow> nat \<Rightarrow> nat" where
  "slots_below g n i = length (filter (\<lambda>k. g k < i) [0..<n])"

text \<open>
  The tables the element restriction is constructed from are well formed when the
  element-to-dof table has one entry for each local slot, each decoding to a global dof
  below \<^verbatim>\<open>ndofs\<close>, and, when the lexicographic ordering is requested, the dof map of
  the tensor basis decodes to a permutation of the local dofs.
\<close>

definition valid_element_tables :: "FiniteElementSpace \<Rightarrow> ElementDofOrdering \<Rightarrow> bool" where
  "valid_element_tables fes e_ordering =
     (let n_e = GetNE fes;
          n_d = (if n_e > 0 then GetDof fes else 0)
      in length (ElementToDofJ fes) = n_e * n_d
         \<and> list_all (\<lambda>s. decode_index s < GetNDofs fes) (ElementToDofJ fes)
         \<and> (e_ordering = LEXICOGRAPHIC \<and> n_e > 0 \<longrightarrow>
              length (GetDofMap fes) = n_d
              \<and> sort (map decode_index (GetDofMap fes)) = [0..<n_d]))"

text \<open>
  The global dof of the local slot \<open>k = dof*e + d\<close> and its sign, as the third loop
  nest of the constructor computes them from the tables.
\<close>

definition slot_source :: "FiniteElementSpace \<Rightarrow> ElementDofOrdering \<Rightarrow> nat \<Rightarrow> nat" where
  "slot_source fes e_ordering k =
     (let n_d = (if GetNE fes > 0 then GetDof fes else 0);
          e = k div n_d;
          d = k mod n_d;
          did = (if e_ordering \<noteq> LEXICOGRAPHIC then d else decode_index (GetDofMap fes ! d))
      in n_d * e + did)"

definition slot_dof :: "FiniteElementSpace \<Rightarrow> ElementDofOrdering \<Rightarrow> nat \<Rightarrow> nat" where
  "slot_dof fes e_ordering k = decode_index (ElementToDofJ fes ! slot_source fes e_ordering k)"

definition slot_plus :: "FiniteElementSpace \<Rightarrow> ElementDofOrdering \<Rightarrow> nat \<Rightarrow> bool" where
  "slot_plus fes e_ordering k =
     (let n_d = (if GetNE fes > 0 then GetDof fes else 0);
          sdid = (if e_ordering = LEXICOGRAPHIC then GetDofMap fes ! (k mod n_d) else 0);
          sgid = ElementToDofJ fes ! slot_source fes e_ordering k
      in (sgid \<ge> 0 \<and> sdid \<ge> 0) \<or> (sgid < 0 \<and> sdid < 0))"

text \<open>
  A small scenario: two segments of order 1 sharing a global dof, the second slot of the
  first element carrying a negative sign, with the lexicographic ordering.
\<close>

definition two_segment_space :: FiniteElementSpace where
  "two_segment_space = \<lparr> GetNE = 2, GetVDim = 1, OrderingByVDIM = False, GetNDofs = 3,
       GetDof = 2, IsTensorBasis = [True, True], GetDofMap = [0, 1],
       ElementToDofJ = [0, - 2, 1, 2] \<rparr>"

definition two_segment_restriction :: ElementRestriction where
  "two_segment_restriction = \<lparr> ne = 2, vdim = 1, byvdim = False, ndofs = 3, dof = 2,
       offsets = [0, 1, 3, 4], indices = [0, - 2, 2, 3], gatherMap = [0, - 2, 1, 2] \<rparr>"



definition quad2x2_restriction :: ElementRestriction where
  "quad2x2_restriction = \<lparr> ne = 4, vdim = 1, byvdim = False, ndofs = 25, dof = 9,
       offsets = [0, 1, 3, 4, 6, 10, 12, 13, 15, 16, 17, 18, 20, 22, 23, 24, 25,
                  27, 28, 29, 31, 32, 33, 34, 35, 36],
       indices = [0, 2, 9, 11, 6, 18, 8, 15, 20, 27, 17, 29, 24, 26, 33, 35, 1, 10,
                  7, 19, 16, 28, 25, 34, 3, 5, 12, 14, 21, 23, 30, 32, 4, 13, 22, 31],
       gatherMap = [0, 9, 1, 15, 21, 16, 3, 11, 4, 1, 10, 2, 16, 22, 17, 4, 12, 5, 3,
                    11, 4, 18, 23, 19, 6, 13, 7, 4, 12, 5, 19, 24, 20, 7, 14, 8] \<rparr>"


definition dof_triples :: "nat \<Rightarrow> nat \<Rightarrow> (nat \<times> nat \<times> nat) list" where
  "dof_triples n_e n_d = List.product [0..<n_e] (List.product [0..<n_d] [0..<n_d])"


text \<open>
  The element \<open>e\<close> touches the global dof \<open>a\<close> when one of its slots is mapped to
  \<open>a\<close> by the slot map \<open>g\<close>. The iteration \<open>(e, i, j)\<close> is counted when the dof of
  one of the two slots has a single slot, or \<open>e\<close> is the least element that touches
  both dofs.
\<close>

definition touches :: "(nat \<Rightarrow> nat) \<Rightarrow> nat \<Rightarrow> nat \<Rightarrow> nat \<Rightarrow> bool" where
  "touches g n_d e a = (\<exists>i<n_d. g (e * n_d + i) = a)"

definition counted :: "(nat \<Rightarrow> nat) \<Rightarrow> nat \<Rightarrow> nat \<Rightarrow> nat \<Rightarrow> nat \<Rightarrow> nat \<Rightarrow> bool" where
  "counted g n_e n_d e i j =
     (slot_count g (n_e * n_d) (g (e * n_d + i)) = 1
      \<or> slot_count g (n_e * n_d) (g (e * n_d + j)) = 1
      \<or> (\<forall>e'<n_e. touches g n_d e' (g (e * n_d + i)) \<and> touches g n_d e' (g (e * n_d + j))
            \<longrightarrow> e \<le> e'))"

text \<open>
  What a counted iteration does to the row counters: it increments the counter of its
  row, the global dof of the slot \<open>i\<close> of the element \<open>e\<close>.
\<close>

definition count_step :: "(nat \<Rightarrow> nat) \<Rightarrow> nat \<Rightarrow> nat \<Rightarrow> nat \<times> nat \<times> nat \<Rightarrow> nat list \<Rightarrow> nat list" where
  "count_step g n_e n_d t I =
     (case t of (e, i, j) \<Rightarrow>
        if counted g n_e n_d e i j then I[g (e * n_d + i) := I ! g (e * n_d + i) + 1] else I)"





section \<open>Theorems on the face permutations\<close>

text \<open>
  Claim C10. \<^verbatim>\<open>PermuteDFaceDNorm2D\<close> returns what \<^verbatim>\<open>PermuteFace2D\<close> returns on every
  input, and so \<^verbatim>\<open>PermuteDFaceDNormL2\<close> and \<^verbatim>\<open>PermuteFaceL2\<close> agree in dimension 2.
\<close>

theorem PermuteDFaceDNorm2D_eq_PermuteFace2D:
  "PermuteDFaceDNorm2D face_id1 face_id2 orientation size1d index
     = PermuteFace2D face_id1 face_id2 orientation size1d index
   \<and> PermuteDFaceDNormL2 2 face_id1 face_id2 orientation size1d index
     = PermuteFaceL2 2 face_id1 face_id2 orientation size1d index"
  by (simp add: PermuteDFaceDNorm2D_def PermuteFace2D_def PermuteDFaceDNormL2_def
      PermuteFaceL2_def)


subsection \<open>Bijectivity of the face permutation\<close>

lemma sdiv_nonneg_pos: "0 \<le> (k::int) \<Longrightarrow> 0 < l \<Longrightarrow> k sdiv l = k div l"
  by (simp add: signed_divide_int_def sgn_if)

lemma smod_nonneg_pos: "0 \<le> (k::int) \<Longrightarrow> 0 < l \<Longrightarrow> k smod l = k mod l"
  by (simp add: signed_modulo_int_def sgn_if)

lemma int32_id: "- (2 ^ 31) \<le> x \<Longrightarrow> x < 2 ^ 31 \<Longrightarrow> int32 x = x"
  by (simp add: int32_def)

lemma flip32:
  assumes "0 \<le> i" "i < s" "s < 2 ^ 31"
  shows "sub32 (sub32 s 1) i = s - 1 - i"
proof -
  have "sub32 s 1 = s - 1" using assms by (simp add: sub32_def int32_id)
  then show ?thesis using assms by (simp add: sub32_def int32_id)
qed

lemma square_bound:
  fixes s :: int
  assumes "1 \<le> s" "s ^ 2 < 2 ^ 31"
  shows "s < 2 ^ 31"
proof -
  have "s * 1 \<le> s * s" using assms(1) by (intro mult_left_mono) simp_all
  then show ?thesis using assms(2) by (simp add: power2_eq_square)
qed

lemma lex_pair_unique:
  fixes a b a' b' s :: int
  assumes "0 \<le> a" "a < s" "0 \<le> a'" "a' < s" "a + b * s = a' + b' * s"
  shows "a = a' \<and> b = b'"
proof -
  have "(a + b * s) mod s = a mod s" "(a' + b' * s) mod s = a' mod s" by simp_all
  moreover have "a mod s = a" "a' mod s = a'" using assms by simp_all
  ultimately have a: "a = a'" using assms(5) by simp
  have "s \<noteq> 0" using assms by auto
  then show ?thesis using a assms(5) by simp
qed

lemma lex_pair_range:
  fixes a b s :: int
  assumes "0 \<le> a" "a < s" "0 \<le> b" "b < s"
  shows "0 \<le> a + b * s \<and> a + b * s < s ^ 2"
proof -
  have "b * s \<le> (s - 1) * s" using assms by (intro mult_right_mono) auto
  then have "a + b * s < s + (s - 1) * s" using assms by linarith
  also have "\<dots> = s ^ 2" by (simp add: power2_eq_square algebra_simps)
  finally show ?thesis using assms by simp
qed

lemma lex32:
  fixes a b s :: int
  assumes "0 \<le> a" "a < s" "0 \<le> b" "b < s" "s ^ 2 < 2 ^ 31"
  shows "add32 a (mul32 b s) = a + b * s"
proof -
  have r: "0 \<le> a + b * s" "a + b * s < s ^ 2" using lex_pair_range[OF assms(1-4)] by simp_all
  have "0 \<le> b * s" using assms by simp
  moreover have "b * s \<le> a + b * s" using assms by simp
  ultimately have "mul32 b s = b * s" using r assms(5) by (simp add: mul32_def int32_id)
  then show ?thesis using r assms(5) by (simp add: add32_def int32_id)
qed

lemma ToLexOrdering3D_exact:
  assumes "0 \<le> i" "i < s" "0 \<le> j" "j < s" "s ^ 2 < 2 ^ 31"
  shows "ToLexOrdering3D f s i j =
     (if f = 2 \<or> f = 1 \<or> f = 5 then i + j * s
      else if f = 3 \<or> f = 4 then (s - 1 - i) + j * s
      else i + (s - 1 - j) * s)"
proof -
  have s1: "1 \<le> s" using assms(1,2) by linarith
  have s: "s < 2 ^ 31" using s1 assms(5) by (rule square_bound)
  have fi: "sub32 (sub32 s 1) i = s - 1 - i" using assms(1,2) s by (rule flip32)
  have fj: "sub32 (sub32 s 1) j = s - 1 - j" using assms(3,4) s by (rule flip32)
  have ri: "0 \<le> s - 1 - i" "s - 1 - i < s" using assms(1,2) by linarith+
  have rj: "0 \<le> s - 1 - j" "s - 1 - j < s" using assms(3,4) by linarith+
  have 1: "add32 i (mul32 j s) = i + j * s" using assms by (rule lex32)
  have 2: "add32 (s - 1 - i) (mul32 j s) = (s - 1 - i) + j * s"
    using ri assms(3,4,5) by (rule lex32)
  have 3: "add32 i (mul32 (s - 1 - j) s) = i + (s - 1 - j) * s"
    using assms(1,2) rj assms(5) by (rule lex32)
  show ?thesis unfolding ToLexOrdering3D_def fi fj 1 2 3 ..
qed

lemma ToLexOrdering3D_range:
  assumes "0 \<le> i" "i < s" "0 \<le> j" "j < s" "s ^ 2 < 2 ^ 31"
  shows "0 \<le> ToLexOrdering3D f s i j \<and> ToLexOrdering3D f s i j < s ^ 2"
  using assms lex_pair_range[of i s j] lex_pair_range[of "s - 1 - i" s j]
    lex_pair_range[of i s "s - 1 - j"]
  by (simp add: ToLexOrdering3D_exact)

lemma ToLexOrdering3D_inj:
  assumes "0 \<le> i" "i < s" "0 \<le> j" "j < s" "0 \<le> i'" "i' < s" "0 \<le> j'" "j' < s"
    "s ^ 2 < 2 ^ 31"
    "ToLexOrdering3D f s i j = ToLexOrdering3D f s i' j'"
  shows "i = i' \<and> j = j'"
  using assms lex_pair_unique[of i s i' j j'] lex_pair_unique[of "s - 1 - i" s "s - 1 - i'" j j']
    lex_pair_unique[of i s i' "s - 1 - j" "s - 1 - j'"]
  by (simp add: ToLexOrdering3D_exact split: if_splits)

lemma permute_orientation3D_exact:
  assumes "0 \<le> i" "i < s" "0 \<le> j" "j < s" "s < 2 ^ 31"
  shows "permute_orientation3D ori s i j =
     (if ori = 0 then (i, j)
      else if ori = 1 then (j, i)
      else if ori = 2 then (j, s - 1 - i)
      else if ori = 3 then (s - 1 - i, j)
      else if ori = 4 then (s - 1 - i, s - 1 - j)
      else if ori = 5 then (s - 1 - j, s - 1 - i)
      else if ori = 6 then (s - 1 - j, i)
      else if ori = 7 then (i, s - 1 - j)
      else (0, 0))"
  using assms by (simp add: permute_orientation3D_def flip32)

lemma permute_orientation3D_range:
  assumes "0 \<le> ori" "ori < 8" "0 \<le> i" "i < s" "0 \<le> j" "j < s" "s < 2 ^ 31"
    "permute_orientation3D ori s i j = (a, b)"
  shows "0 \<le> a \<and> a < s \<and> 0 \<le> b \<and> b < s"
  using assms(1-6,8) unfolding permute_orientation3D_exact[OF assms(3-7)]
  by (auto split: if_splits)

lemma permute_orientation3D_inj:
  assumes "0 \<le> ori" "ori < 8" "0 \<le> i" "i < s" "0 \<le> j" "j < s"
    "0 \<le> i'" "i' < s" "0 \<le> j'" "j' < s" "s < 2 ^ 31"
    "permute_orientation3D ori s i j = permute_orientation3D ori s i' j'"
  shows "i = i' \<and> j = j'"
  using assms(1,2,12)
  unfolding permute_orientation3D_exact[OF assms(3-6,11)]
    permute_orientation3D_exact[OF assms(7-11)]
  by (auto split: if_splits)


lemma inj_on_into_bij_betw:
  assumes "finite A" "inj_on f A" "f ` A \<subseteq> A"
  shows "bij_betw f A A"
proof -
  have "card (f ` A) = card A" using assms(2) by (rule card_image)
  then have "f ` A = A" using assms(1,3) by (simp add: card_subset_eq)
  then show ?thesis using assms(2) by (simp add: bij_betw_def)
qed

lemma PermuteFace2D_exact:
  assumes "0 \<le> x" "x < s" "s < 2 ^ 31"
  shows "PermuteFace2D f1 f2 ori s x =
     (let y = (if f1 = 2 \<or> f1 = 3 then s - 1 - x else x);
          z = (if ori = 1 then s - 1 - y else y)
      in if f2 = 2 \<or> f2 = 3 then s - 1 - z else z)"
proof -
  have 1: "sub32 (sub32 s 1) x = s - 1 - x" using assms by (simp add: flip32)
  have 2: "sub32 (sub32 s 1) (s - 1 - x) = s - 1 - (s - 1 - x)"
    using assms by (intro flip32) simp_all
  show ?thesis unfolding PermuteFace2D_def ToLexOrdering2D_def Let_def
    by (simp add: 1 2)
qed

lemma PermuteFace2D_bij:
  assumes "1 \<le> s" "s < 2 ^ 31"
  shows "bij_betw (PermuteFace2D f1 f2 ori s) {0..<s} {0..<s}"
proof (rule inj_on_into_bij_betw)
  show "finite {0..<s}" by simp
  show "inj_on (PermuteFace2D f1 f2 ori s) {0..<s}"
    using assms(2)
    by (auto simp: inj_on_def PermuteFace2D_exact Let_def split: if_splits)
  show "PermuteFace2D f1 f2 ori s ` {0..<s} \<subseteq> {0..<s}"
    using assms(2) by (auto simp: PermuteFace2D_exact Let_def)
qed

lemma PermuteFace3D_decompose:
  assumes "1 \<le> s" "0 \<le> x" "x < s ^ 2" "s ^ 2 < 2 ^ 31"
  shows "\<exists>i j. 0 \<le> i \<and> i < s \<and> 0 \<le> j \<and> j < s \<and> x = i + j * s \<and>
    PermuteFace3D f1 f2 ori s x =
       (let i' = (if f1 = 3 \<or> f1 = 4 then s - 1 - i else i);
            j' = (if f1 = 3 \<or> f1 = 4 then j else if f1 = 0 then s - 1 - j else j);
            (new_i, new_j) = permute_orientation3D ori s i' j'
        in ToLexOrdering3D f2 s new_i new_j)"
proof -
  have s: "0 < s" using assms by simp
  have sb: "s < 2 ^ 31" using assms(1,4) by (rule square_bound)
  have e: "s * (x div s) + x mod s = x" by simp
  have "0 \<le> x mod s" using s by simp
  with e have "s * (x div s) \<le> x" by linarith
  then have "s * (x div s) < s * s" using assms(3) by (simp add: power2_eq_square)
  then have d1: "x div s < s" using s by (simp add: mult_less_cancel_left_pos)
  have d0: "0 \<le> x div s" using assms s by (simp add: pos_imp_zdiv_nonneg_iff)
  have m: "0 \<le> x mod s" "x mod s < s" using s by simp_all
  have x: "x = x mod s + (x div s) * s" by simp
  have "x smod s = x mod s" "x sdiv s = x div s"
    using assms s by (simp_all add: smod_nonneg_pos sdiv_nonneg_pos)
  moreover have "- (2 ^ 31) \<le> x mod s" "x mod s < 2 ^ 31"
    "- (2 ^ 31) \<le> x div s" "x div s < 2 ^ 31"
    using m d0 d1 sb by linarith+
  ultimately have md: "mod32 x s = x mod s" "div32 x s = x div s"
    by (simp_all add: mod32_def div32_def int32_id)
  have fl: "sub32 (sub32 s 1) (x mod s) = s - 1 - x mod s"
    "sub32 (sub32 s 1) (x div s) = s - 1 - x div s"
    using m d0 d1 sb by (simp_all add: flip32)
  have "PermuteFace3D f1 f2 ori s x =
       (let i' = (if f1 = 3 \<or> f1 = 4 then s - 1 - x mod s else x mod s);
            j' = (if f1 = 3 \<or> f1 = 4 then x div s
                  else if f1 = 0 then s - 1 - x div s else x div s);
            (new_i, new_j) = permute_orientation3D ori s i' j'
        in ToLexOrdering3D f2 s new_i new_j)"
    unfolding PermuteFace3D_def md Let_def fl ..
  with d0 d1 m x show ?thesis
    by (intro exI[of _ "x mod s"] exI[of _ "x div s"]) simp
qed

lemma PermuteFace3D_via:
  assumes "1 \<le> s" "0 \<le> ori" "ori < 8" "0 \<le> x" "x < s ^ 2" "s ^ 2 < 2 ^ 31"
  obtains i j a b where "0 \<le> i" "i < s" "0 \<le> j" "j < s" "x = i + j * s"
    "0 \<le> a" "a < s" "0 \<le> b" "b < s"
    "permute_orientation3D ori s (if f1 = 3 \<or> f1 = 4 then s - 1 - i else i)
       (if f1 = 3 \<or> f1 = 4 then j else if f1 = 0 then s - 1 - j else j) = (a, b)"
    "PermuteFace3D f1 f2 ori s x = ToLexOrdering3D f2 s a b"
proof -
  have sb: "s < 2 ^ 31" using assms(1,6) by (rule square_bound)
  obtain i j where ij: "0 \<le> i" "i < s" "0 \<le> j" "j < s" "x = i + j * s"
    and P: "PermuteFace3D f1 f2 ori s x =
       (let i' = (if f1 = 3 \<or> f1 = 4 then s - 1 - i else i);
            j' = (if f1 = 3 \<or> f1 = 4 then j else if f1 = 0 then s - 1 - j else j);
            (new_i, new_j) = permute_orientation3D ori s i' j'
        in ToLexOrdering3D f2 s new_i new_j)"
    using PermuteFace3D_decompose[OF assms(1,4,5,6), of f1 f2 ori] by blast
  let ?i = "if f1 = 3 \<or> f1 = 4 then s - 1 - i else i"
  let ?j = "if f1 = 3 \<or> f1 = 4 then j else if f1 = 0 then s - 1 - j else j"
  obtain a b where ab: "permute_orientation3D ori s ?i ?j = (a, b)" by force
  have "0 \<le> ?i" "?i < s" "0 \<le> ?j" "?j < s" using ij by auto
  from permute_orientation3D_range[OF assms(2,3) this sb ab]
  have "0 \<le> a" "a < s" "0 \<le> b" "b < s" by auto
  moreover have "PermuteFace3D f1 f2 ori s x = ToLexOrdering3D f2 s a b"
    using P ab by simp
  ultimately show ?thesis using that ij ab by blast
qed

lemma PermuteFace3D_bij:
  assumes "1 \<le> s" "0 \<le> ori" "ori < 8" "s ^ 2 < 2 ^ 31"
  shows "bij_betw (PermuteFace3D f1 f2 ori s) {0..<s ^ 2} {0..<s ^ 2}"
proof (rule inj_on_into_bij_betw)
  have sb: "s < 2 ^ 31" using assms(1,4) by (rule square_bound)
  show "finite {0..<s ^ 2}" by simp
  show "PermuteFace3D f1 f2 ori s ` {0..<s ^ 2} \<subseteq> {0..<s ^ 2}"
  proof
    fix y assume "y \<in> PermuteFace3D f1 f2 ori s ` {0..<s ^ 2}"
    then obtain x where x: "0 \<le> x" "x < s ^ 2" "y = PermuteFace3D f1 f2 ori s x" by auto
    from PermuteFace3D_via[OF assms(1,2,3) x(1,2) assms(4), of f1 f2]
    obtain a b where "0 \<le> a" "a < s" "0 \<le> b" "b < s"
      "PermuteFace3D f1 f2 ori s x = ToLexOrdering3D f2 s a b" by metis
    then show "y \<in> {0..<s ^ 2}"
      using ToLexOrdering3D_range[of a s b f2] x(3) assms(4) by simp
  qed
  show "inj_on (PermuteFace3D f1 f2 ori s) {0..<s ^ 2}"
  proof (rule inj_onI)
    fix x y assume "x \<in> {0..<s ^ 2}" "y \<in> {0..<s ^ 2}"
      and eq: "PermuteFace3D f1 f2 ori s x = PermuteFace3D f1 f2 ori s y"
    then have x: "0 \<le> x" "x < s ^ 2" and y: "0 \<le> y" "y < s ^ 2" by auto
    from PermuteFace3D_via[OF assms(1,2,3) x assms(4), of f1 f2]
    obtain i j a b where 1: "0 \<le> i" "i < s" "0 \<le> j" "j < s" "x = i + j * s"
      "0 \<le> a" "a < s" "0 \<le> b" "b < s"
      "permute_orientation3D ori s (if f1 = 3 \<or> f1 = 4 then s - 1 - i else i)
        (if f1 = 3 \<or> f1 = 4 then j else if f1 = 0 then s - 1 - j else j) = (a, b)"
      "PermuteFace3D f1 f2 ori s x = ToLexOrdering3D f2 s a b" by metis
    from PermuteFace3D_via[OF assms(1,2,3) y assms(4), of f1 f2]
    obtain i' j' a' b' where 2: "0 \<le> i'" "i' < s" "0 \<le> j'" "j' < s" "y = i' + j' * s"
      "0 \<le> a'" "a' < s" "0 \<le> b'" "b' < s"
      "permute_orientation3D ori s (if f1 = 3 \<or> f1 = 4 then s - 1 - i' else i')
        (if f1 = 3 \<or> f1 = 4 then j' else if f1 = 0 then s - 1 - j' else j') = (a', b')"
      "PermuteFace3D f1 f2 ori s y = ToLexOrdering3D f2 s a' b'" by metis
    let ?i = "if f1 = 3 \<or> f1 = 4 then s - 1 - i else i"
    let ?j = "if f1 = 3 \<or> f1 = 4 then j else if f1 = 0 then s - 1 - j else j"
    let ?i' = "if f1 = 3 \<or> f1 = 4 then s - 1 - i' else i'"
    let ?j' = "if f1 = 3 \<or> f1 = 4 then j' else if f1 = 0 then s - 1 - j' else j'"
    have "ToLexOrdering3D f2 s a b = ToLexOrdering3D f2 s a' b'"
      using eq 1(11) 2(11) by simp
    from ToLexOrdering3D_inj[OF 1(6-9) 2(6-9) assms(4) this] have "a = a'" "b = b'" by auto
    with 1(10) 2(10) have pe:
      "permute_orientation3D ori s ?i ?j = permute_orientation3D ori s ?i' ?j'" by simp
    have r: "0 \<le> ?i" "?i < s" "0 \<le> ?j" "?j < s" using 1(1-4) by auto
    have r': "0 \<le> ?i'" "?i' < s" "0 \<le> ?j'" "?j' < s" using 2(1-4) by auto
    from permute_orientation3D_inj[OF assms(2,3) r r' sb pe]
    have "i = i'" "j = j'" by (auto split: if_splits)
    then show "x = y" using 1(5) 2(5) by simp
  qed
qed

text \<open>
  Claim C5, as amended. In dimension 2 or 3, for valid face identifiers and a valid
  orientation code and every \<open>size1d \<ge> 1\<close> for which the number
  \<open>size1d ^ (dim - 1)\<close> of face dofs fits in an \<^verbatim>\<open>int\<close>, \<^verbatim>\<open>PermuteFaceL2\<close> returns a
  value for every index, and the map from the index to that value is a bijection on the
  face-dof indices \<open>[0, size1d ^ (dim - 1))\<close>.
\<close>

theorem PermuteFaceL2_bijection:
  assumes "valid_face_args dim' face_id1 face_id2 orientation" and "1 \<le> size1d"
    and "size1d ^ nat (dim' - 1) < 2 ^ 31"
  shows "\<exists>p. (\<forall>index. PermuteFaceL2 dim' face_id1 face_id2 orientation size1d index
                    = Inr (p index))
            \<and> bij_betw p {0..<size1d ^ nat (dim' - 1)} {0..<size1d ^ nat (dim' - 1)}"
proof (cases "dim' = 2")
  case True
  have "bij_betw (PermuteFace2D face_id1 face_id2 orientation size1d) {0..<size1d} {0..<size1d}"
    using assms(2,3) True by (intro PermuteFace2D_bij) simp_all
  then show ?thesis using True by (auto simp: PermuteFaceL2_def)
next
  case False
  then have d: "dim' = 3" and o: "0 \<le> orientation" "orientation < 8"
    using assms(1) by (simp_all add: valid_face_args_def)
  have b: "size1d ^ 2 < 2 ^ 31" using assms(3) d by simp
  have "bij_betw (PermuteFace3D face_id1 face_id2 orientation size1d)
          {0..<size1d ^ 2} {0..<size1d ^ 2}"
    using assms(2) o b by (rule PermuteFace3D_bij)
  then show ?thesis using d by (auto simp: PermuteFaceL2_def)
qed

theorem PermuteFaceL2_bijection_witness:
  "valid_face_args 3 4 0 6 \<and> (1::int) \<le> 3 \<and> (3::int) ^ nat (3 - 1) < 2 ^ 31
   \<and> PermuteFaceL2 3 4 0 6 3 5 = Inr 7
   \<and> (\<exists>p. (\<forall>index. PermuteFaceL2 3 4 0 6 3 index = Inr (p index))
          \<and> bij_betw p {0..<(3::int) ^ nat (3 - 1)} {0..<(3::int) ^ nat (3 - 1)})"
proof -
  have v: "valid_face_args 3 4 0 6" by (simp add: valid_face_args_def)
  have s: "(1::int) \<le> 3" by simp
  have b: "(3::int) ^ nat (3 - 1) < 2 ^ 31" by simp
  have e: "PermuteFaceL2 3 4 0 6 3 5 = Inr 7"
    by code_simp
  from PermuteFaceL2_bijection[OF v s b] e v s b show ?thesis by blast
qed

text \<open>
  Without the bound the claim fails: for \<open>size1d = 50000\<close> in dimension 3 the index 0
  is mapped to \<open>49999 + 49999 * 50000\<close> reduced to 32 bits, a negative number.
\<close>

theorem PermuteFaceL2_overflow_counterexample:
  "valid_face_args 3 2 2 4 \<and> (1::int) \<le> 50000 \<and> (0::int) < 50000 ^ nat (3 - 1)
   \<and> PermuteFaceL2 3 2 2 4 50000 0 = Inr (- 1794967297) \<and> (- 1794967297 :: int) < 0"
  by code_simp
section \<open>Stores and views: auxiliary facts\<close>

lemma run_stores_length [simp]: "length (run_stores ops y) = length y"
  unfolding run_stores_def by (induction ops arbitrary: y) (auto split: prod.splits)

lemma run_stores_Nil [simp]: "run_stores [] y = y"
  by (simp add: run_stores_def)

lemma run_stores_Cons: "run_stores ((k, f) # ops) y = run_stores ops (y[k := f (y ! k)])"
  by (simp add: run_stores_def)

lemma run_stores_other:
  "k \<notin> fst ` set ops \<Longrightarrow> run_stores ops y ! k = y ! k"
proof (induction ops arbitrary: y)
  case Nil
  then show ?case by simp
next
  case (Cons a ops)
  obtain k' f where a: "a = (k', f)" by (cases a)
  with Cons.prems have "k' \<noteq> k" "k \<notin> fst ` set ops" by auto
  then show ?case using Cons.IH[of "y[k' := f (y ! k')]"] a
    by (simp add: run_stores_Cons)
qed

lemma run_stores_nth:
  "distinct (map fst ops) \<Longrightarrow> (k, f) \<in> set ops \<Longrightarrow> k < length y
     \<Longrightarrow> run_stores ops y ! k = f (y ! k)"
proof (induction ops arbitrary: y)
  case Nil
  then show ?case by simp
next
  case (Cons a ops)
  obtain k' f' where a: "a = (k', f')" by (cases a)
  show ?case
  proof (cases "(k, f) = a")
    case True
    with a Cons.prems(1) have "k \<notin> fst ` set ops" by auto
    then have "run_stores ops (y[k := f (y ! k)]) ! k = (y[k := f (y ! k)]) ! k"
      by (rule run_stores_other)
    then show ?thesis using True a Cons.prems(3) by (simp add: run_stores_Cons)
  next
    case False
    with Cons.prems(2) have in_ops: "(k, f) \<in> set ops" by simp
    then have "k \<in> fst ` set ops" by force
    with Cons.prems(1) a have ne: "k' \<noteq> k" by auto
    have "run_stores ops (y[k' := f' (y ! k')]) ! k = f ((y[k' := f' (y ! k')]) ! k)"
      using Cons.IH[of "y[k' := f' (y ! k')]"] Cons.prems(1,3) in_ops by simp
    then show ?thesis using a ne by (simp add: run_stores_Cons)
  qed
qed

lemma distinct_nested_map:
  assumes "\<And>i c i' c'. i < n \<Longrightarrow> c < m \<Longrightarrow> i' < n \<Longrightarrow> c' < m \<Longrightarrow> K i c = K i' c'
             \<Longrightarrow> i = i' \<and> c = c'"
  shows "distinct (concat (map (\<lambda>i. map (K i) [0..<m]) [0..<n]))"
proof (cases "m = 0")
  case True
  then have "concat (map (\<lambda>i. map (K i) [0..<m]) [0..<n]) = []" by simp
  then show ?thesis by (simp only: distinct.simps)
next
  case False
  show ?thesis
  proof (rule distinct_concat)
    have "inj_on (\<lambda>i. map (K i) [0..<m]) (set [0..<n])"
    proof (rule inj_onI)
      fix i i' assume "i \<in> set [0..<n]" "i' \<in> set [0..<n]"
        and "map (K i) [0..<m] = map (K i') [0..<m]"
      then have "i < n" "i' < n" "\<forall>x\<in>{0..<m}. K i x = K i' x" by simp_all
      then show "i = i'" using assms[of i 0 i' 0] False by simp
    qed
    then show "distinct (map (\<lambda>i. map (K i) [0..<m]) [0..<n])"
      by (simp add: distinct_map)
    show "\<And>ys. ys \<in> set (map (\<lambda>i. map (K i) [0..<m]) [0..<n]) \<Longrightarrow> distinct ys"
      using assms by (auto simp: distinct_map inj_on_def)
    show "\<And>ys zs. ys \<in> set (map (\<lambda>i. map (K i) [0..<m]) [0..<n]) \<Longrightarrow>
            zs \<in> set (map (\<lambda>i. map (K i) [0..<m]) [0..<n]) \<Longrightarrow> ys \<noteq> zs \<Longrightarrow> set ys \<inter> set zs = {}"
      using assms by (auto; metis)
  qed
qed

lemma nat_lex_unique:
  fixes a b a' b' s :: nat
  assumes "a < s" "a' < s" "a + s * b = a' + s * b'"
  shows "a = a' \<and> b = b'"
proof -
  have "a = (a + s * b) mod s" using assms(1) by simp
  also have "\<dots> = (a' + s * b') mod s" by (simp only: assms(3))
  also have "\<dots> = a'" using assms(2) by simp
  finally have a: "a = a'" .
  have "b = (a + s * b) div s" using assms(1) by simp
  also have "\<dots> = (a' + s * b') div s" by (simp only: assms(3))
  also have "\<dots> = b'" using assms(2) by simp
  finally show ?thesis using a by simp
qed

lemma Reshape3_slot_inj:
  assumes "i < nd * n" "c < vd" "i' < nd * n" "c' < vd"
    "Reshape3 nd vd (i mod nd) c (i div nd) = Reshape3 nd vd (i' mod nd) c' (i' div nd)"
  shows "i = i' \<and> c = c'"
proof -
  have nd: "0 < nd" using assms(1) by (cases nd) auto
  from assms(5) have "i mod nd + nd * (c + vd * (i div nd))
      = i' mod nd + nd * (c' + vd * (i' div nd))"
    by (simp add: Reshape3_def)
  from nat_lex_unique[OF _ _ this] nd
  have m: "i mod nd = i' mod nd" and "c + vd * (i div nd) = c' + vd * (i' div nd)" by simp_all
  from nat_lex_unique[OF assms(2,4) this(2)] have c: "c = c'" and "i div nd = i' div nd"
    by simp_all
  with m have "i = i'" by (metis div_mult_mod_eq)
  with c show ?thesis by simp
qed

lemma Reshape2_global_inj:
  assumes "i < n" "c < vd" "i' < n" "c' < vd"
    "Reshape2 (if t then vd else n) (if t then c else i) (if t then i else c)
     = Reshape2 (if t then vd else n) (if t then c' else i') (if t then i' else c')"
  shows "i = i' \<and> c = c'"
proof (cases t)
  case True
  with assms(5) have "c + vd * i = c' + vd * i'" by (simp add: Reshape2_def)
  from nat_lex_unique[OF assms(2,4) this] show ?thesis by simp
next
  case False
  with assms(5) have "i + n * c = i' + n * c'" by (simp add: Reshape2_def)
  from nat_lex_unique[OF assms(1,3) this] show ?thesis by simp
qed

lemma count_list_distinct_mem:
  "distinct xs \<Longrightarrow> x \<in> set xs \<Longrightarrow> count_list xs x = 1"
  by (induction xs) auto

lemma Reshape3_bound:
  assumes "d < nd" "c < vd" "e < n"
  shows "Reshape3 nd vd d c e < nd * vd * n"
proof -
  have "c + vd * e < vd * n"
  proof -
    have "c + vd * e < vd * (e + 1)" using assms(2) by simp
    also have "\<dots> \<le> vd * n" using assms(3) by (intro mult_le_mono2) simp
    finally show ?thesis .
  qed
  then have "nd * (c + vd * e + 1) \<le> nd * (vd * n)" by (intro mult_le_mono2) simp
  moreover have "d + nd * (c + vd * e) < nd * (c + vd * e + 1)" using assms(1) by simp
  ultimately show ?thesis by (simp add: Reshape3_def mult.assoc)
qed

lemma Reshape2_bound:
  assumes "i < n" "c < vd"
  shows "Reshape2 (if t then vd else n) (if t then c else i) (if t then i else c) < vd * n"
proof -
  have "c + vd * i < vd * (i + 1)" using assms(2) by simp
  also have "\<dots> \<le> vd * n" using assms(1) by (intro mult_le_mono2) simp
  finally have 1: "c + vd * i < vd * n" .
  have "i + n * c < n * (c + 1)" using assms(1) by simp
  also have "\<dots> \<le> n * vd" using assms(2) by (intro mult_le_mono2) simp
  finally have 2: "i + n * c < vd * n" by (simp add: mult.commute)
  show ?thesis using 1 2 by (simp add: Reshape2_def)
qed

lemma in_nested_map:
  "i < n \<Longrightarrow> c < m \<Longrightarrow> G i c \<in> set (concat (map (\<lambda>i. map (G i) [0..<m]) [0..<n]))"
  by (simp, intro bexI[of _ i] imageI) simp_all

lemma slot_of_element:
  fixes d nd e n :: nat
  assumes "d < nd" "e < n"
  shows "e * nd + d < nd * n" "(e * nd + d) mod nd = d" "(e * nd + d) div nd = e"
proof -
  have "e * nd + d < (e + 1) * nd" using assms(1) by simp
  also have "\<dots> \<le> n * nd" using assms(2) by (intro mult_le_mono1) simp
  finally show "e * nd + d < nd * n" by (simp add: mult.commute)
  show "(e * nd + d) mod nd = d" "(e * nd + d) div nd = e" using assms(1) by simp_all
qed

section \<open>Theorems on the element restriction\<close>

subsection \<open>Scatter\<close>

lemma Mult_stores_eq:
  "Mult_stores R x =
     concat (map (\<lambda>i. map (\<lambda>c.
        (Reshape3 (dof R) (vdim R) (i mod dof R) c (i div dof R),
         \<lambda>_. if gatherMap R ! i \<ge> 0
              then global_entry R x (decode_index (gatherMap R ! i)) c
              else - global_entry R x (decode_index (gatherMap R ! i)) c)) [0..<vdim R])
       [0..<dof R * ne R])"
  by (simp add: Mult_stores_def Let_def global_entry_def decode_index_def cong: if_cong)

lemma Mult_stores_positions:
  "map fst (Mult_stores R x) =
     concat (map (\<lambda>i. map (\<lambda>c. Reshape3 (dof R) (vdim R) (i mod dof R) c (i div dof R))
       [0..<vdim R]) [0..<dof R * ne R])"
  by (simp add: Mult_stores_eq map_concat comp_def)

lemma Mult_stores_distinct: "distinct (map fst (Mult_stores R x))"
  unfolding Mult_stores_positions
  by (rule distinct_nested_map) (rule Reshape3_slot_inj)

lemma Mult_entry:
  assumes "e < ne R" and "d < dof R" and "c < vdim R"
    and "length y = dof R * vdim R * ne R"
  shows "local_entry R (Mult R x y) d c e =
           (let s = gatherMap R ! (e * dof R + d)
            in if s \<ge> 0 then global_entry R x (decode_index s) c
               else - global_entry R x (decode_index s) c)
         \<and> count_list (map fst (Mult_stores R x)) (Reshape3 (dof R) (vdim R) d c e) = 1"
proof -
  let ?i = "e * dof R + d"
  let ?pos = "Reshape3 (dof R) (vdim R) d c e"
  let ?f = "\<lambda>_::'a. if gatherMap R ! ?i \<ge> 0
              then global_entry R x (decode_index (gatherMap R ! ?i)) c
              else - global_entry R x (decode_index (gatherMap R ! ?i)) c"
  have i: "?i < dof R * ne R" "?i mod dof R = d" "?i div dof R = e"
    using slot_of_element[OF assms(2,1)] by simp_all
  let ?G = "\<lambda>i c. (Reshape3 (dof R) (vdim R) (i mod dof R) c (i div dof R),
         \<lambda>_::'a. if gatherMap R ! i \<ge> 0
              then global_entry R x (decode_index (gatherMap R ! i)) c
              else - global_entry R x (decode_index (gatherMap R ! i)) c)"
  have "?G ?i c \<in> set (Mult_stores R x)"
    unfolding Mult_stores_eq using i(1) assms(3) by (rule in_nested_map)
  moreover have "?G ?i c = (?pos, ?f)" by (simp only: i)
  ultimately have mem: "(?pos, ?f) \<in> set (Mult_stores R x)" by (simp only:)
  have "?pos < length y" using Reshape3_bound[OF assms(2,3,1)] assms(4) by simp
  with mem have "Mult R x y ! ?pos = ?f (y ! ?pos)"
    unfolding Mult_def using Mult_stores_distinct by (intro run_stores_nth)
  moreover have "?pos \<in> set (map fst (Mult_stores R x))"
    using mem by (metis fst_conv image_eqI set_map)
  ultimately show ?thesis
    using count_list_distinct_mem[OF Mult_stores_distinct]
    by (simp add: local_entry_def Let_def)
qed


text \<open>
  Claim C1. For every element restriction and every global vector \<open>x\<close>, after
  \<^verbatim>\<open>Mult\<close> the local entry \<open>(d, c, e)\<close> is the global entry at component \<open>c\<close> of
  the dof decoded from \<^verbatim>\<open>gatherMap[e*dof+d]\<close>, negated when that code is negative,
  whatever the output vector held before; and the kernel stores into that entry exactly
  once.
\<close>

theorem Mult_scatter:
  assumes "e < ne R" and "d < dof R" and "c < vdim R"
    and "length y = dof R * vdim R * ne R"
  shows "local_entry R (Mult R x y) d c e =
           (let s = gatherMap R ! (e * dof R + d)
            in if s \<ge> 0 then global_entry R x (decode_index s) c
               else - global_entry R x (decode_index s) c)
         \<and> count_list (map fst (Mult_stores R x)) (Reshape3 (dof R) (vdim R) d c e) = 1"
  using assms by (rule Mult_entry)

theorem Mult_scatter_witness:
  "(0::nat) < ne \<lparr>ne = 2, vdim = 1, byvdim = False, ndofs = 3, dof = 2,
                  offsets = [0, 1, 3, 4], indices = [0, -2, 2, 3], gatherMap = [0, -2, 1, 2]\<rparr>
   \<and> local_entry \<lparr>ne = 2, vdim = 1, byvdim = False, ndofs = 3, dof = 2,
                  offsets = [0, 1, 3, 4], indices = [0, -2, 2, 3], gatherMap = [0, -2, 1, 2]\<rparr>
        (Mult \<lparr>ne = 2, vdim = 1, byvdim = False, ndofs = 3, dof = 2,
                  offsets = [0, 1, 3, 4], indices = [0, -2, 2, 3], gatherMap = [0, -2, 1, 2]\<rparr>
           [10, 20, 30 :: int] [7, 7, 7, 7]) 1 0 0 = - 20
   \<and> count_list (map fst (Mult_stores \<lparr>ne = 2, vdim = 1, byvdim = False, ndofs = 3, dof = 2,
                  offsets = [0, 1, 3, 4], indices = [0, -2, 2, 3], gatherMap = [0, -2, 1, 2]\<rparr>
           [10, 20, 30 :: int])) (Reshape3 2 1 1 0 0) = 1"
  using Mult_scatter[of 0 "\<lparr>ne = 2, vdim = 1, byvdim = False, ndofs = 3, dof = 2,
                  offsets = [0, 1, 3, 4], indices = [0, -2, 2, 3], gatherMap = [0, -2, 1, 2]\<rparr>"
           1 0 "[7, 7, 7, 7]" "[10, 20, 30 :: int]"]
  by (simp add: global_entry_def decode_index_def Reshape2_def)

subsection \<open>Gather (transpose)\<close>

lemma fold_plus_foldl:
  "fold (\<lambda>j acc. acc + f j) js a = foldl (+) a (map f js)"
  by (induction js arbitrary: a) simp_all

lemma MultTranspose_stores_eq:
  "MultTranspose_stores R x =
     concat (map (\<lambda>i. map (\<lambda>c.
        (Reshape2 (if byvdim R then vdim R else ndofs R)
           (if byvdim R then c else i) (if byvdim R then i else c),
         \<lambda>_. bucket_sum R x i c)) [0..<vdim R])
       [0..<ndofs R])"
proof -
  have "fold (\<lambda>j dofValue.
            dofValue + (if indices R ! j \<ge> 0
               then x ! Reshape3 (dof R) (vdim R) (decode_index (indices R ! j) mod dof R) c
                          (decode_index (indices R ! j) div dof R)
               else - (x ! Reshape3 (dof R) (vdim R) (decode_index (indices R ! j) mod dof R) c
                          (decode_index (indices R ! j) div dof R))))
          [offsets R ! i..<offsets R ! (i + 1)] 0 = bucket_sum R x i c" for i c
  proof -
    have "(\<lambda>j. if indices R ! j \<ge> 0
               then x ! Reshape3 (dof R) (vdim R) (decode_index (indices R ! j) mod dof R) c
                          (decode_index (indices R ! j) div dof R)
               else - (x ! Reshape3 (dof R) (vdim R) (decode_index (indices R ! j) mod dof R) c
                          (decode_index (indices R ! j) div dof R)))
          = (\<lambda>j. signed_slot_value R x (indices R ! j) c)"
      by (auto simp: signed_slot_value_def slot_value_def local_entry_def decode_index_def)
    then show ?thesis
      unfolding bucket_sum_def fold_plus_foldl by simp
  qed
  then show ?thesis
    by (simp add: MultTranspose_stores_def Let_def)
qed

lemma MultTranspose_stores_distinct: "distinct (map fst (MultTranspose_stores R x))"
proof -
  have "map fst (MultTranspose_stores R x) =
     concat (map (\<lambda>i. map (\<lambda>c. Reshape2 (if byvdim R then vdim R else ndofs R)
           (if byvdim R then c else i) (if byvdim R then i else c)) [0..<vdim R])
       [0..<ndofs R])"
    by (simp add: MultTranspose_stores_eq map_concat comp_def)
  then show ?thesis
    using distinct_nested_map[of "ndofs R" "vdim R"
        "\<lambda>i c. Reshape2 (if byvdim R then vdim R else ndofs R)
           (if byvdim R then c else i) (if byvdim R then i else c)", OF Reshape2_global_inj]
    by simp
qed

lemma MultTranspose_entry:
  assumes "g < ndofs R" and "c < vdim R" and "length y = vdim R * ndofs R"
  shows "global_entry R (MultTranspose R x y) g c = bucket_sum R x g c"
proof -
  let ?pos = "Reshape2 (if byvdim R then vdim R else ndofs R)
           (if byvdim R then c else g) (if byvdim R then g else c)"
  let ?G = "\<lambda>i c. (Reshape2 (if byvdim R then vdim R else ndofs R)
           (if byvdim R then c else i) (if byvdim R then i else c),
         \<lambda>_::'a. bucket_sum R x i c)"
  have mem: "?G g c \<in> set (MultTranspose_stores R x)"
    unfolding MultTranspose_stores_eq using assms(1,2) by (rule in_nested_map)
  have "?pos < length y" using Reshape2_bound[OF assms(1,2)] assms(3) by simp
  with mem have "MultTranspose R x y ! ?pos = bucket_sum R x g c"
    unfolding MultTranspose_def using MultTranspose_stores_distinct
    by (intro run_stores_nth[where f = "\<lambda>_. bucket_sum R x g c"]) simp_all
  then show ?thesis by (simp add: global_entry_def)
qed

text \<open>
  Claim C2. For every element restriction and every local vector \<open>x\<close>, after
  \<^verbatim>\<open>MultTranspose\<close> the global entry \<open>(g, c)\<close> is the sum, over the entries of the
  bucket of \<open>g\<close> in \<^verbatim>\<open>indices\<close>, of the local value at the decoded slot, with sign
  \<open>-1\<close> for an entry encoded negative and \<open>+1\<close> otherwise.
\<close>

theorem MultTranspose_gather:
  assumes "g < ndofs R" and "c < vdim R" and "length y = vdim R * ndofs R"
  shows "global_entry R (MultTranspose R x y) g c = bucket_sum R x g c"
  using assms by (rule MultTranspose_entry)

theorem MultTranspose_gather_witness:
  "(1::nat) < ndofs \<lparr>ne = 2, vdim = 1, byvdim = False, ndofs = 3, dof = 2,
                  offsets = [0, 1, 3, 4], indices = [0, -2, 2, 3], gatherMap = [0, -2, 1, 2]\<rparr>
   \<and> global_entry \<lparr>ne = 2, vdim = 1, byvdim = False, ndofs = 3, dof = 2,
                  offsets = [0, 1, 3, 4], indices = [0, -2, 2, 3], gatherMap = [0, -2, 1, 2]\<rparr>
        (MultTranspose \<lparr>ne = 2, vdim = 1, byvdim = False, ndofs = 3, dof = 2,
                  offsets = [0, 1, 3, 4], indices = [0, -2, 2, 3], gatherMap = [0, -2, 1, 2]\<rparr>
           [1, 10, 100, 1000 :: int] [7, 7, 7]) 1 0 = 90"
proof -
  let ?R = "\<lparr>ne = 2, vdim = 1, byvdim = False, ndofs = 3, dof = 2,
             offsets = [0, 1, 3, 4], indices = [0, -2, 2, 3], gatherMap = [0, -2, 1, 2]\<rparr>"
  have e: "bucket_sum ?R [1, 10, 100, 1000 :: int] 1 0 = 90" by code_simp
  have "global_entry ?R (MultTranspose ?R [1, 10, 100, 1000 :: int] [7, 7, 7]) 1 0
          = bucket_sum ?R [1, 10, 100, 1000 :: int] 1 0"
    by (rule MultTranspose_gather) simp_all
  with e show ?thesis by simp
qed
section \<open>Loops that may abort\<close>

lemma fold_err_invariant:
  "(\<And>a s s'. P s \<Longrightarrow> body a s = Inr s' \<Longrightarrow> P s') \<Longrightarrow> P s
     \<Longrightarrow> fold_err body xs s = Inr s' \<Longrightarrow> P s'"
proof (induction xs arbitrary: s)
  case Nil
  then show ?case by simp
next
  case (Cons a xs)
  from Cons.prems(3) obtain s1 where s1: "body a s = Inr s1" "fold_err body xs s1 = Inr s'"
    by (auto split: sum.splits)
  have "P s1" using Cons.prems(1)[of s a s1] Cons.prems(2) s1(1) by simp
  from Cons.IH[OF Cons.prems(1) this s1(2)] show ?case .
qed

lemma fold_err_total: "fold_err (\<lambda>a s. Inr (g a s)) xs s = Inr (fold g xs s)"
  by (induction xs arbitrary: s) simp_all

section \<open>The constructor of the element restriction\<close>

subsection \<open>The four passes of the counting sort\<close>

lemma fold_upt_shift:
  "fold f [b..<b + n] s = fold (\<lambda>d. f (b + d)) [0..<n] s"
proof -
  have "[b..<b + n] = map (\<lambda>d. b + d) [0..<n]"
    by (induction n) simp_all
  then show ?thesis by (simp only: fold_map comp_def)
qed

lemma fold_nested_div_mod:
  "fold (\<lambda>e. fold (\<lambda>d. g e d) [0..<n_d]) [0..<n_e] s
     = fold (\<lambda>k. g (k div n_d) (k mod n_d)) [0..<n_e * n_d] s"
proof (induction n_e arbitrary: s)
  case 0
  then show ?case by simp
next
  case (Suc n_e)
  have split: "[0..<Suc n_e * n_d] = [0..<n_e * n_d] @ [n_e * n_d..<n_e * n_d + n_d]"
    using upt_add_eq_append[of 0 "n_e * n_d" n_d] by (simp add: add.commute)
  have last: "fold (\<lambda>k. g (k div n_d) (k mod n_d)) [n_e * n_d..<n_e * n_d + n_d] t
      = fold (\<lambda>d. g n_e d) [0..<n_d] t" for t
  proof -
    have "fold (\<lambda>k. g (k div n_d) (k mod n_d)) [n_e * n_d..<n_e * n_d + n_d] t
        = fold (\<lambda>d. g ((n_e * n_d + d) div n_d) ((n_e * n_d + d) mod n_d)) [0..<n_d] t"
      by (rule fold_upt_shift[of "\<lambda>k. g (k div n_d) (k mod n_d)" "n_e * n_d" n_d t])
    also have "\<dots> = fold (\<lambda>d. g n_e d) [0..<n_d] t"
      by (rule fold_cong[OF refl refl]) auto
    finally show ?thesis .
  qed
  have "fold (\<lambda>e. fold (\<lambda>d. g e d) [0..<n_d]) [0..<Suc n_e] s
      = fold (\<lambda>d. g n_e d) [0..<n_d] (fold (\<lambda>e. fold (\<lambda>d. g e d) [0..<n_d]) [0..<n_e] s)"
    by simp
  also have "\<dots> = fold (\<lambda>d. g n_e d) [0..<n_d]
                     (fold (\<lambda>k. g (k div n_d) (k mod n_d)) [0..<n_e * n_d] s)"
    by (simp only: Suc)
  also have "\<dots> = fold (\<lambda>k. g (k div n_d) (k mod n_d)) [0..<Suc n_e * n_d] s"
    by (simp only: split fold_append comp_apply last)
  finally show ?case .
qed

lemma slot_count_Suc:
  "slot_count g (Suc n) i = slot_count g n i + (if g n = i then 1 else 0)"
  by (simp add: slot_count_def)

lemma slot_count_0 [simp]: "slot_count g 0 i = 0"
  by (simp add: slot_count_def)

lemma slots_below_0 [simp]: "slots_below g n 0 = 0"
  by (simp add: slots_below_def)

lemma slots_below_Suc:
  "slots_below g n (Suc i) = slots_below g n i + slot_count g n i"
proof -
  have "length (filter (\<lambda>k. g k < Suc i) xs)
      = length (filter (\<lambda>k. g k < i) xs) + length (filter (\<lambda>k. g k = i) xs)" for xs
    by (induction xs) auto
  then show ?thesis by (simp add: slots_below_def slot_count_def)
qed

lemma slots_below_mono: "i \<le> j \<Longrightarrow> slots_below g n i \<le> slots_below g n j"
proof (induction j)
  case 0
  then show ?case by simp
next
  case (Suc j)
  then show ?case by (cases "i = Suc j") (auto simp: slots_below_Suc)
qed

lemma slots_below_all:
  assumes "\<forall>k<n. g k < m"
  shows "slots_below g n m = n"
proof -
  have "filter (\<lambda>k. g k < m) [0..<n] = [0..<n]" using assms by (simp add: filter_id_conv)
  then show ?thesis by (simp add: slots_below_def)
qed

lemma slot_count_mono: "n \<le> n' \<Longrightarrow> slot_count g n i \<le> slot_count g n' i"
proof (induction n')
  case 0
  then show ?case by simp
next
  case (Suc n')
  then show ?case by (cases "n = Suc n'") (auto simp: slot_count_Suc)
qed

text \<open>First pass.\<close>

lemma count_pass:
  assumes "\<forall>k<n. g k < m" "length r0 = m + 1" "\<forall>i\<le>m. r0 ! i = 0"
  shows "length (fold (\<lambda>k offs. offs[g k + 1 := offs ! (g k + 1) + 1]) [0..<n] r0) = m + 1
       \<and> fold (\<lambda>k offs. offs[g k + 1 := offs ! (g k + 1) + 1]) [0..<n] r0 ! 0 = 0
       \<and> (\<forall>i<m. fold (\<lambda>k offs. offs[g k + 1 := offs ! (g k + 1) + 1]) [0..<n] r0 ! (i + 1)
                   = slot_count g n i)"
  using assms(1)
proof (induction n)
  case 0
  then show ?case using assms(2,3) by simp
next
  case (Suc n)
  let ?r = "fold (\<lambda>k offs. offs[g k + 1 := offs ! (g k + 1) + 1]) [0..<n] r0"
  from Suc have IH: "length ?r = m + 1" "?r ! 0 = 0" "\<forall>i<m. ?r ! (i + 1) = slot_count g n i"
    by simp_all
  have gn: "g n < m" using Suc.prems by simp
  have step: "fold (\<lambda>k offs. offs[g k + 1 := offs ! (g k + 1) + 1]) [0..<Suc n] r0
      = ?r[g n + 1 := ?r ! (g n + 1) + 1]" by simp
  have "(?r[g n + 1 := ?r ! (g n + 1) + 1]) ! (i + 1) = slot_count g (Suc n) i" if "i < m" for i
  proof (cases "i = g n")
    case True
    then show ?thesis using IH(1,3) that by (simp add: slot_count_Suc)
  next
    case False
    then show ?thesis using IH(3) that by (simp add: slot_count_Suc)
  qed
  then show ?case unfolding step using IH(1,2) by simp
qed

text \<open>Second pass.\<close>

lemma aggregate_pass:
  assumes "length r = m + 1" "r ! 0 = 0" "\<forall>i<m. r ! (i + 1) = slot_count g n i" "t \<le> m"
  shows "length (fold (\<lambda>i offs. offs[i := offs ! i + offs ! (i - 1)]) [1..<t + 1] r) = m + 1
       \<and> (\<forall>i\<le>t. fold (\<lambda>i offs. offs[i := offs ! i + offs ! (i - 1)]) [1..<t + 1] r ! i
                   = slots_below g n i)
       \<and> (\<forall>i. t < i \<and> i \<le> m \<longrightarrow>
              fold (\<lambda>i offs. offs[i := offs ! i + offs ! (i - 1)]) [1..<t + 1] r ! i = r ! i)"
  using assms(4)
proof (induction t)
  case 0
  then show ?case using assms(1,2) by simp
next
  case (Suc t)
  let ?r = "fold (\<lambda>i offs. offs[i := offs ! i + offs ! (i - 1)]) [1..<t + 1] r"
  from Suc have IH: "length ?r = m + 1" "\<forall>i\<le>t. ?r ! i = slots_below g n i"
    "\<forall>i. t < i \<and> i \<le> m \<longrightarrow> ?r ! i = r ! i" by simp_all
  have step: "fold (\<lambda>i offs. offs[i := offs ! i + offs ! (i - 1)]) [1..<Suc t + 1] r
      = ?r[Suc t := ?r ! Suc t + ?r ! t]" by simp
  have "?r ! Suc t = slot_count g n t" using IH(3) Suc.prems assms(3) by simp
  moreover have "?r ! t = slots_below g n t" using IH(2) by simp
  ultimately have new: "?r ! Suc t + ?r ! t = slots_below g n (Suc t)"
    by (simp add: slots_below_Suc)
  have 1: "(?r[Suc t := ?r ! Suc t + ?r ! t]) ! i = slots_below g n i" if "i \<le> Suc t" for i
  proof (cases "i = Suc t")
    case True
    then show ?thesis using new IH(1) Suc.prems by simp
  next
    case False
    with that have "i \<le> t" by simp
    then show ?thesis using IH(2) False by simp
  qed
  have 2: "(?r[Suc t := ?r ! Suc t + ?r ! t]) ! i = r ! i" if "Suc t < i" "i \<le> m" for i
    using that IH(3) by simp
  show ?case unfolding step using IH(1) 1 2 by simp
qed

text \<open>Last pass.\<close>

lemma shift_pass:
  assumes "m < length offs" "t \<le> m"
  shows "length (fold (\<lambda>i offs. offs[i := offs ! (i - 1)]) (rev [Suc t..<Suc m]) offs) = length offs
       \<and> (\<forall>i<length offs.
            fold (\<lambda>i offs. offs[i := offs ! (i - 1)]) (rev [Suc t..<Suc m]) offs ! i
              = (if t < i \<and> i \<le> m then offs ! (i - 1) else offs ! i))"
  using assms
proof (induction m arbitrary: offs)
  case 0
  then show ?case by simp
next
  case (Suc m)
  show ?case
  proof (cases "t = Suc m")
    case True
    then show ?thesis by auto
  next
    case False
    with Suc.prems have t: "t \<le> m" by simp
    let ?o = "offs[Suc m := offs ! m]"
    have step: "fold (\<lambda>i offs. offs[i := offs ! (i - 1)]) (rev [Suc t..<Suc (Suc m)]) offs
        = fold (\<lambda>i offs. offs[i := offs ! (i - 1)]) (rev [Suc t..<Suc m]) ?o"
      using t by simp
    from Suc.IH[of ?o] Suc.prems t
    have IH: "length (fold (\<lambda>i offs. offs[i := offs ! (i - 1)]) (rev [Suc t..<Suc m]) ?o)
                = length offs"
      "\<forall>i<length offs. fold (\<lambda>i offs. offs[i := offs ! (i - 1)]) (rev [Suc t..<Suc m]) ?o ! i
              = (if t < i \<and> i \<le> m then ?o ! (i - 1) else ?o ! i)" by simp_all
    have "fold (\<lambda>i offs. offs[i := offs ! (i - 1)]) (rev [Suc t..<Suc m]) ?o ! i
              = (if t < i \<and> i \<le> Suc m then offs ! (i - 1) else offs ! i)"
      if "i < length offs" for i
    proof (cases "i = Suc m")
      case True
      then show ?thesis using IH(2) that t by simp
    next
      case False
      show ?thesis
      proof (cases "t < i \<and> i \<le> m")
        case True
        then have "i - 1 \<noteq> Suc m" by linarith
        then show ?thesis using IH(2) that True by simp
      next
        case F: False
        then show ?thesis using IH(2) that False by auto
      qed
    qed
    then show ?thesis unfolding step using IH(1) by simp
  qed
qed

lemma filter_upt_Suc:
  "filter P [0..<Suc n] = filter P [0..<n] @ (if P n then [n] else [])"
  by simp

lemma slot_count_less:
  assumes "n < N"
  shows "slot_count g n (g n) < slot_count g N (g n)"
proof -
  have "slot_count g (Suc n) (g n) = slot_count g n (g n) + 1" by (simp add: slot_count_Suc)
  moreover have "slot_count g (Suc n) (g n) \<le> slot_count g N (g n)"
    using assms by (intro slot_count_mono) simp
  ultimately show ?thesis by simp
qed

lemma bucket_disjoint:
  assumes "i \<noteq> i0" "r < slot_count gA N i" "r0 < slot_count gA N i0"
  shows "slots_below gA N i + r \<noteq> slots_below gA N i0 + r0"
proof (cases "i < i0")
  case True
  then have "slots_below gA N (Suc i) \<le> slots_below gA N i0"
    by (intro slots_below_mono) simp
  then show ?thesis using assms(2) by (simp add: slots_below_Suc)
next
  case False
  with assms(1) have "slots_below gA N (Suc i0) \<le> slots_below gA N i"
    by (intro slots_below_mono) simp
  then show ?thesis using assms(3) by (simp add: slots_below_Suc)
qed

lemma fill_pass:
  fixes gA gB :: "nat \<Rightarrow> nat" and val :: "nat \<Rightarrow> 'v" and gmv :: "nat \<Rightarrow> 'w"
  defines "F \<equiv> \<lambda>k (offs :: nat list, inds :: 'v list, gm :: 'w list).
             (offs[gB k := offs ! gB k + 1], inds[offs ! gB k := val k], gm[k := gmv k])"
  assumes gB: "\<forall>k<N. gB k < m"
    and cnt: "\<forall>i. slot_count gB N i = slot_count gA N i"
    and gA: "\<forall>k<N. gA k < m"
    and o0: "length offs0 = m + 1" "\<forall>i\<le>m. offs0 ! i = slots_below gA N i"
    and l0: "length inds0 = N" "length gm0 = N"
    and n: "n \<le> N"
    and res: "fold F [0..<n] (offs0, inds0, gm0) = (offs, inds, gm)"
  shows "length offs = m + 1 \<and> length inds = N \<and> length gm = N
       \<and> (\<forall>i<m. offs ! i = slots_below gA N i + slot_count gB n i)
       \<and> offs ! m = slots_below gA N m
       \<and> (\<forall>i<m. \<forall>r<slot_count gB n i.
             inds ! (slots_below gA N i + r) = val (filter (\<lambda>k. gB k = i) [0..<n] ! r))
       \<and> (\<forall>k<n. gm ! k = gmv k)"
  using n res
proof (induction n arbitrary: offs inds gm)
  case 0
  then show ?case using o0 l0 by simp
next
  case (Suc n)
  obtain offs' inds' gm' where st: "fold F [0..<n] (offs0, inds0, gm0) = (offs', inds', gm')"
    by (cases "fold F [0..<n] (offs0, inds0, gm0)") auto
  from Suc.IH[OF _ st] Suc.prems(1)
  have len: "length offs' = m + 1" "length inds' = N" "length gm' = N"
    and offs': "\<forall>i<m. offs' ! i = slots_below gA N i + slot_count gB n i"
    and last': "offs' ! m = slots_below gA N m"
    and inds': "\<forall>i<m. \<forall>r<slot_count gB n i.
             inds' ! (slots_below gA N i + r) = val (filter (\<lambda>k. gB k = i) [0..<n] ! r)"
    and gm': "\<forall>k<n. gm' ! k = gmv k"
    by simp_all
  have nN: "n < N" using Suc.prems(1) by simp
  let ?i0 = "gB n"
  have i0: "?i0 < m" using gB nN by simp
  let ?pos = "offs' ! ?i0"
  have pos: "?pos = slots_below gA N ?i0 + slot_count gB n ?i0" using offs' i0 by simp
  have c0: "slot_count gB n ?i0 < slot_count gA N ?i0"
    using slot_count_less[OF nN, of gB] cnt by simp
  have "slots_below gA N (Suc ?i0) \<le> slots_below gA N m"
    using i0 by (intro slots_below_mono) simp
  then have posN: "?pos < N"
    using pos c0 slots_below_all[OF gA] by (simp add: slots_below_Suc)
  have step: "(offs, inds, gm)
      = (offs'[?i0 := offs' ! ?i0 + 1], inds'[?pos := val n], gm'[n := gmv n])"
    using Suc.prems(2) st by (simp add: F_def)
  have A: "offs ! i = slots_below gA N i + slot_count gB (Suc n) i" if "i < m" for i
    using step offs' that len(1) by (cases "i = ?i0") (simp_all add: slot_count_Suc)
  have B: "offs ! m = slots_below gA N m" using step last' i0 by simp
  have C: "inds ! (slots_below gA N i + r) = val (filter (\<lambda>k. gB k = i) [0..<Suc n] ! r)"
    if "i < m" "r < slot_count gB (Suc n) i" for i r
  proof (cases "i = ?i0 \<and> r = slot_count gB n ?i0")
    case True
    then have "slots_below gA N i + r = ?pos" using pos by simp
    then have "inds ! (slots_below gA N i + r) = val n" using step posN len(2) by simp
    moreover have "filter (\<lambda>k. gB k = i) [0..<Suc n] ! r = n"
      using True by (simp add: slot_count_def nth_append)
    ultimately show ?thesis by simp
  next
    case False
    have rn: "r < slot_count gB n i"
      using that(2) False by (cases "i = ?i0") (auto simp: slot_count_Suc)
    have "slots_below gA N i + r \<noteq> ?pos"
    proof (cases "i = ?i0")
      case True
      then show ?thesis using False pos by simp
    next
      case F: False
      have "r < slot_count gA N i"
        using rn slot_count_mono[of n N gB i] nN cnt by (metis less_le_trans less_imp_le)
      from bucket_disjoint[OF F this c0] show ?thesis using pos by simp
    qed
    then have "inds ! (slots_below gA N i + r) = inds' ! (slots_below gA N i + r)"
      using step by simp
    also have "\<dots> = val (filter (\<lambda>k. gB k = i) [0..<n] ! r)" using inds' that(1) rn by simp
    also have "filter (\<lambda>k. gB k = i) [0..<n] ! r = filter (\<lambda>k. gB k = i) [0..<Suc n] ! r"
      using rn by (simp add: slot_count_def nth_append)
    finally show ?thesis .
  qed
  have D: "gm ! k = gmv k" if "k < Suc n" for k
    using step gm' that len(3) nN by (cases "k = n") simp_all
  have "length offs = m + 1" "length inds = N" "length gm = N" using step len by simp_all
  then show ?case using A B C D by simp
qed

lemma zero_pass:
  "length (fold (\<lambda>i offs. offs[i := 0]) [0..<n] (r :: nat list)) = length r
   \<and> (\<forall>i<length r. fold (\<lambda>i offs. offs[i := 0]) [0..<n] r ! i = (if i < n then 0 else r ! i))"
proof (induction n)
  case 0
  then show ?case by simp
next
  case (Suc n)
  let ?r = "fold (\<lambda>i offs. offs[i := 0]) [0..<n] r"
  have step: "fold (\<lambda>i offs. offs[i := 0]) [0..<Suc n] r = ?r[n := 0]" by simp
  have "(?r[n := 0]) ! i = (if i < Suc n then 0 else r ! i)" if "i < length r" for i
    using Suc that by (cases "i = n") simp_all
  then show ?case unfolding step using Suc by simp
qed

lemma slots_below_cong:
  assumes "\<forall>i. slot_count g n i = slot_count h n i"
  shows "slots_below g n i = slots_below h n i"
  using assms by (induction i) (simp_all add: slots_below_Suc)

lemma slot_count_as_count: "slot_count g n i = count (image_mset g (mset_set {0..<n})) i"
proof -
  have "count (image_mset g (mset xs)) i = length (filter (\<lambda>k. g k = i) xs)" for xs
    by (induction xs) auto
  from this[of "[0..<n]"] show ?thesis by (simp add: slot_count_def)
qed

lemma slot_count_permuted:
  assumes "inj_on p {0..<n}" "p ` {0..<n} \<subseteq> {0..<n}"
  shows "slot_count (\<lambda>k. g (p k)) n i = slot_count g n i"
proof -
  have "p ` {0..<n} = {0..<n}"
    using assms by (intro endo_inj_surj) simp_all
  then have "image_mset p (mset_set {0..<n}) = mset_set {0..<n}"
    using assms(1) by (simp add: image_mset_mset_set)
  moreover have "image_mset (\<lambda>k. g (p k)) (mset_set {0..<n})
      = image_mset g (image_mset p (mset_set {0..<n}))"
    by (simp add: multiset.map_comp comp_def)
  ultimately show ?thesis by (simp add: slot_count_as_count)
qed

lemma div_mod_recompose: "n_d * (k div n_d) + k mod n_d = (k::nat)"
  by simp

lemma slot_source_props:
  assumes "valid_element_tables fes ord"
  defines "n_d \<equiv> (if GetNE fes > 0 then GetDof fes else 0)"
  defines "N \<equiv> GetNE fes * n_d"
  shows "inj_on (slot_source fes ord) {0..<N}" "slot_source fes ord ` {0..<N} \<subseteq> {0..<N}"
proof -
  define did where "did = (\<lambda>d. if ord \<noteq> LEXICOGRAPHIC then d else decode_index (GetDofMap fes ! d))"
  have src: "slot_source fes ord k = n_d * (k div n_d) + did (k mod n_d)" for k
    by (simp add: slot_source_def n_d_def did_def Let_def)
  have did: "did d < n_d \<and> (\<forall>d'<n_d. did d = did d' \<longrightarrow> d = d')" if "d < n_d" for d
  proof (cases "ord = LEXICOGRAPHIC")
    case False
    then show ?thesis using that by (simp add: did_def)
  next
    case True
    have ne: "GetNE fes > 0" using that by (simp add: n_d_def split: if_splits)
    let ?xs = "map decode_index (GetDofMap fes)"
    from assms(1) True ne have len: "length (GetDofMap fes) = n_d"
      and srt: "sort ?xs = [0..<n_d]"
      by (simp_all add: valid_element_tables_def Let_def n_d_def)
    have ms: "mset ?xs = mset [0..<n_d]" using srt by (metis mset_sort)
    then have "set ?xs = {0..<n_d}" by (metis mset_eq_setD set_upt)
    moreover have dist: "distinct ?xs" using ms by (metis distinct_upt mset_eq_imp_distinct_iff)
    moreover have nth: "did d = ?xs ! d" if "d < n_d" for d
      using that len True by (simp add: did_def)
    ultimately have "did d < n_d" using that len by (metis atLeastLessThan_iff length_map nth_mem)
    moreover have "d = d'" if "d' < n_d" "did d = did d'" for d'
    proof -
      have "?xs ! d = ?xs ! d'" using that nth[OF \<open>d < n_d\<close>] nth[OF that(1)] by simp
      moreover have "d < length ?xs" "d' < length ?xs" using that \<open>d < n_d\<close> len by simp_all
      ultimately show ?thesis using dist by (simp only: nth_eq_iff_index_eq)
    qed
    ultimately show ?thesis by blast
  qed
  show "slot_source fes ord ` {0..<N} \<subseteq> {0..<N}"
  proof
    fix y assume "y \<in> slot_source fes ord ` {0..<N}"
    then obtain k where k: "k < N" "y = n_d * (k div n_d) + did (k mod n_d)"
      by (auto simp: src)
    then have nd: "0 < n_d" by (cases n_d) (auto simp: N_def)
    have "k div n_d < GetNE fes" using k(1) nd by (simp add: N_def less_mult_imp_div_less)
    then have "n_d * (k div n_d + 1) \<le> n_d * GetNE fes" by (intro mult_le_mono2) simp
    moreover have "did (k mod n_d) < n_d" using did[of "k mod n_d"] nd by simp
    ultimately show "y \<in> {0..<N}" using k(2) by (simp add: N_def mult.commute)
  qed
  show "inj_on (slot_source fes ord) {0..<N}"
  proof (rule inj_onI)
    fix k k' assume "k \<in> {0..<N}" "k' \<in> {0..<N}"
      and eq: "slot_source fes ord k = slot_source fes ord k'"
    then have nd: "0 < n_d" by (cases n_d) (auto simp: N_def)
    have d: "did (k mod n_d) < n_d" "did (k' mod n_d) < n_d"
      using did[of "k mod n_d"] did[of "k' mod n_d"] nd by simp_all
    from eq have "did (k mod n_d) + n_d * (k div n_d) = did (k' mod n_d) + n_d * (k' div n_d)"
      by (simp add: src add.commute)
    from nat_lex_unique[OF d this]
    have "did (k mod n_d) = did (k' mod n_d)" "k div n_d = k' div n_d" by simp_all
    moreover from this(1) have "k mod n_d = k' mod n_d"
      using did[of "k mod n_d"] nd by simp
    ultimately show "k = k'" by (metis div_mult_mod_eq)
  qed
qed

lemma count_slots_flat:
  "count_slots n_e n_d elementMap offs0
     = fold (\<lambda>k offs. offs[decode_index (elementMap ! k) + 1
                            := offs ! (decode_index (elementMap ! k) + 1) + 1])
         [0..<n_e * n_d] offs0"
proof -
  have "count_slots n_e n_d elementMap offs0
      = fold (\<lambda>e. fold (\<lambda>d offs. offs[decode_index (elementMap ! (n_d * e + d)) + 1
                 := offs ! (decode_index (elementMap ! (n_d * e + d)) + 1) + 1]) [0..<n_d])
          [0..<n_e] offs0"
    by (simp add: count_slots_def Let_def)
  also have "\<dots> = fold (\<lambda>k offs.
        offs[decode_index (elementMap ! (n_d * (k div n_d) + k mod n_d)) + 1
          := offs ! (decode_index (elementMap ! (n_d * (k div n_d) + k mod n_d)) + 1) + 1])
        [0..<n_e * n_d] offs0"
    by (rule fold_nested_div_mod[of "\<lambda>e d offs.
          offs[decode_index (elementMap ! (n_d * e + d)) + 1
                 := offs ! (decode_index (elementMap ! (n_d * e + d)) + 1) + 1]" n_d n_e offs0])
  finally show ?thesis by (simp only: div_mod_recompose)
qed

lemma fill_slot_flat:
  assumes "n_d = (if GetNE fes > 0 then GetDof fes else 0)"
  shows "fill_slot (ord = LEXICOGRAPHIC) (GetDofMap fes) n_d (ElementToDofJ fes)
           (k div n_d) (k mod n_d)
       = (\<lambda>(offs, inds, gm).
            (offs[slot_dof fes ord k := offs ! slot_dof fes ord k + 1],
             inds[offs ! slot_dof fes ord k
                    := (if slot_plus fes ord k then int k else - 1 - int k)],
             gm[k := (if slot_plus fes ord k then int (slot_dof fes ord k)
                      else - 1 - int (slot_dof fes ord k))]))"
  using assms
  by (auto simp: fill_slot_def slot_dof_def slot_plus_def slot_source_def Let_def fun_eq_iff)

lemma fill_slots_flat:
  assumes "n_d = (if GetNE fes > 0 then GetDof fes else 0)"
  shows "fill_slots (ord = LEXICOGRAPHIC) (GetDofMap fes) n_e n_d (ElementToDofJ fes) st0
       = fold (\<lambda>k (offs, inds, gm).
            (offs[slot_dof fes ord k := offs ! slot_dof fes ord k + 1],
             inds[offs ! slot_dof fes ord k
                    := (if slot_plus fes ord k then int k else - 1 - int k)],
             gm[k := (if slot_plus fes ord k then int (slot_dof fes ord k)
                      else - 1 - int (slot_dof fes ord k))]))
           [0..<n_e * n_d] st0"
proof -
  have "fill_slots (ord = LEXICOGRAPHIC) (GetDofMap fes) n_e n_d (ElementToDofJ fes) st0
      = fold (\<lambda>k. fill_slot (ord = LEXICOGRAPHIC) (GetDofMap fes) n_d (ElementToDofJ fes)
                     (k div n_d) (k mod n_d)) [0..<n_e * n_d] st0"
    unfolding fill_slots_def
    by (rule fold_nested_div_mod[of "fill_slot (ord = LEXICOGRAPHIC) (GetDofMap fes) n_d
          (ElementToDofJ fes)" n_d n_e st0])
  then show ?thesis by (simp only: fill_slot_flat[OF assms])
qed


lemma ElementRestriction_ctor_result:
  assumes ctor: "ElementRestriction_ctor junk fes ord = Inr R"
    and valid: "valid_element_tables fes ord"
  defines "N \<equiv> ne R * dof R" and "g \<equiv> slot_dof fes ord"
  shows "ne R = GetNE fes \<and> dof R = (if GetNE fes > 0 then GetDof fes else 0)
         \<and> ndofs R = GetNDofs fes \<and> vdim R = GetVDim fes \<and> byvdim R = OrderingByVDIM fes"
    and "length (offsets R) = ndofs R + 1"
    and "\<forall>i\<le>ndofs R. offsets R ! i = slots_below g N i"
    and "length (indices R) = N"
    and "\<forall>i<ndofs R. \<forall>r<slot_count g N i.
           indices R ! (slots_below g N i + r)
             = (if slot_plus fes ord (filter (\<lambda>k. g k = i) [0..<N] ! r)
                then int (filter (\<lambda>k. g k = i) [0..<N] ! r)
                else - 1 - int (filter (\<lambda>k. g k = i) [0..<N] ! r))"
    and "length (gatherMap R) = N"
    and "\<forall>k<N. gatherMap R ! k = (if slot_plus fes ord k then int (g k) else - 1 - int (g k))"
    and "\<forall>k<N. g k < ndofs R"
proof -
  define n_e where "n_e = GetNE fes"
  define m where "m = GetNDofs fes"
  define n_d where "n_d = (if GetNE fes > 0 then GetDof fes else 0)"
  define gA where "gA = (\<lambda>k. decode_index (ElementToDofJ fes ! k))"
  define offs0 where "offs0 = fold (\<lambda>i offs. offs[i := 0]) [0..<m + 1] (replicate (m + 1) (nat junk))"
  define offs1 where "offs1 = count_slots n_e n_d (ElementToDofJ fes) offs0"
  define offs2 where "offs2 = aggregate_offsets m offs1"
  define st where "st = fill_slots (ord = LEXICOGRAPHIC) (GetDofMap fes) n_e n_d
      (ElementToDofJ fes) (offs2, replicate (n_e * n_d) junk, replicate (n_e * n_d) junk)"
  obtain offs3 inds gmap where st3: "st = (offs3, inds, gmap)" by (cases st) auto
  have "ElementRestriction_ctor junk fes ord = Inr (ElementRestriction_ctor_end fes n_d st)
         \<or> (\<exists>err. ElementRestriction_ctor junk fes ord = Inl err)"
    unfolding ElementRestriction_ctor_def Let_def st_def offs2_def offs1_def offs0_def
      n_e_def m_def n_d_def by simp
  with ctor have "R = ElementRestriction_ctor_end fes n_d st" by auto
  then have R: "R = \<lparr> ne = n_e, vdim = GetVDim fes, byvdim = OrderingByVDIM fes,
                 ndofs = m, dof = n_d, offsets = shift_offsets m offs3,
                 indices = inds, gatherMap = gmap \<rparr>"
    by (simp add: st3 n_e_def m_def)
  have N: "N = n_e * n_d" using R by (simp add: N_def)
  show "ne R = GetNE fes \<and> dof R = (if GetNE fes > 0 then GetDof fes else 0)
         \<and> ndofs R = GetNDofs fes \<and> vdim R = GetVDim fes \<and> byvdim R = OrderingByVDIM fes"
    using R by (simp add: n_e_def n_d_def m_def)
  \<comment> \<open>the tables\<close>
  have len: "length (ElementToDofJ fes) = N"
    and all: "\<forall>k<N. gA k < m"
    using valid
    by (simp_all add: valid_element_tables_def Let_def N n_e_def n_d_def gA_def m_def
        list_all_length)
  have src: "inj_on (slot_source fes ord) {0..<N}" "slot_source fes ord ` {0..<N} \<subseteq> {0..<N}"
    using slot_source_props[OF valid] by (simp_all add: N n_e_def n_d_def)
  have g: "g = (\<lambda>k. gA (slot_source fes ord k))"
    by (simp add: g_def gA_def slot_dof_def fun_eq_iff)
  have cnt: "\<forall>i. slot_count g N i = slot_count gA N i"
    unfolding g using slot_count_permuted[OF src] by simp
  have gm: "\<forall>k<N. g k < m"
  proof (intro allI impI)
    fix k assume "k < N"
    then have "slot_source fes ord k \<in> slot_source fes ord ` {0..<N}" by simp
    with src(2) have "slot_source fes ord k \<in> {0..<N}" by blast
    then have "slot_source fes ord k < N" by simp
    then show "g k < m" using all by (simp add: g)
  qed
  then show "\<forall>k<N. g k < ndofs R" using R by simp
  \<comment> \<open>the passes\<close>
  have z: "length offs0 = m + 1" "\<forall>i\<le>m. offs0 ! i = 0"
    using zero_pass[of "m + 1" "replicate (m + 1) (nat junk)"] by (simp_all add: offs0_def)
  have c: "length offs1 = m + 1" "offs1 ! 0 = 0" "\<forall>i<m. offs1 ! (i + 1) = slot_count gA N i"
    using count_pass[OF all z] by (simp_all add: offs1_def count_slots_flat N gA_def)
  have a: "length offs2 = m + 1" "\<forall>i\<le>m. offs2 ! i = slots_below gA N i"
    using aggregate_pass[OF c order_refl] by (simp_all add: offs2_def aggregate_offsets_def)
  have f: "length offs3 = m + 1 \<and> length inds = N \<and> length gmap = N
       \<and> (\<forall>i<m. offs3 ! i = slots_below gA N i + slot_count g N i)
       \<and> offs3 ! m = slots_below gA N m
       \<and> (\<forall>i<m. \<forall>r<slot_count g N i.
             inds ! (slots_below gA N i + r)
               = (if slot_plus fes ord (filter (\<lambda>k. g k = i) [0..<N] ! r)
                  then int (filter (\<lambda>k. g k = i) [0..<N] ! r)
                  else - 1 - int (filter (\<lambda>k. g k = i) [0..<N] ! r)))
       \<and> (\<forall>k<N. gmap ! k = (if slot_plus fes ord k then int (g k) else - 1 - int (g k)))"
    by (rule fill_pass[where gA = gA and gB = g and N = N and n = N and m = m
          and val = "\<lambda>k. if slot_plus fes ord k then int k else - 1 - int k"
          and gmv = "\<lambda>k. if slot_plus fes ord k then int (g k) else - 1 - int (g k)"
          and ?offs0.0 = offs2 and ?inds0.0 = "replicate N junk" and ?gm0.0 = "replicate N junk",
          OF gm cnt all a])
       (use st3 in \<open>simp_all add: st_def fill_slots_flat[OF n_d_def] N g_def cong: if_cong\<close>)
  have below: "slots_below gA N i = slots_below g N i" for i
    using slots_below_cong[of gA N g i] cnt by simp
  show "length (indices R) = N" "length (gatherMap R) = N" using f R by simp_all
  show "\<forall>k<N. gatherMap R ! k = (if slot_plus fes ord k then int (g k) else - 1 - int (g k))"
    using f R by simp
  show "\<forall>i<ndofs R. \<forall>r<slot_count g N i.
           indices R ! (slots_below g N i + r)
             = (if slot_plus fes ord (filter (\<lambda>k. g k = i) [0..<N] ! r)
                then int (filter (\<lambda>k. g k = i) [0..<N] ! r)
                else - 1 - int (filter (\<lambda>k. g k = i) [0..<N] ! r))"
    using f R by (simp add: below)
  \<comment> \<open>the shift\<close>
  let ?sh = "fold (\<lambda>i offs. offs[i := offs ! (i - 1)]) (rev [Suc 0..<Suc m]) offs3"
  have sh: "length ?sh = length offs3"
    "\<forall>i<length offs3. ?sh ! i = (if 0 < i \<and> i \<le> m then offs3 ! (i - 1) else offs3 ! i)"
    using shift_pass[of m offs3 0] f by simp_all
  have offR: "offsets R = ?sh[0 := 0]" using R by (simp add: shift_offsets_def)
  show "length (offsets R) = ndofs R + 1" using offR sh(1) f R by simp
  show "\<forall>i\<le>ndofs R. offsets R ! i = slots_below g N i"
  proof (intro allI impI)
    fix i assume "i \<le> ndofs R"
    then have i: "i \<le> m" using R by simp
    show "offsets R ! i = slots_below g N i"
    proof (cases i)
      case 0
      then show ?thesis using offR sh(1) f by simp
    next
      case (Suc j)
      then have "offsets R ! i = offs3 ! j" using offR sh i f by simp
      also have "\<dots> = slots_below gA N j + slot_count g N j" using f Suc i by simp
      also have "\<dots> = slots_below g N (Suc j)" by (simp add: slots_below_Suc below)
      finally show ?thesis using Suc by simp
    qed
  qed
qed

lemma decode_slot_code [simp]:
  "decode_index (if p then int k else - 1 - int k) = k"
  by (simp add: decode_index_def)

lemma find_bucket:
  fixes b :: "nat \<Rightarrow> nat"
  assumes "b 0 \<le> j" "j < b m"
  shows "\<exists>i<m. b i \<le> j \<and> j < b (Suc i)"
  using assms
proof (induction m)
  case 0
  then show ?case by simp
next
  case (Suc m)
  show ?case
  proof (cases "j < b m")
    case True
    with Suc obtain i where "i < m" "b i \<le> j" "j < b (Suc i)" by blast
    then show ?thesis by (intro exI[of _ i]) simp
  next
    case False
    then show ?thesis using Suc.prems by (intro exI[of _ m]) simp
  qed
qed

text \<open>What the buckets of a constructed restriction hold, from the three facts on
  \<open>offsets\<close>, \<open>indices\<close> and the slots.\<close>

lemma bucket_entry:
  assumes offs: "\<forall>i\<le>m. offs ! i = slots_below g N i"
    and inds: "\<forall>i<m. \<forall>r<slot_count g N i.
           decode_index (inds ! (slots_below g N i + r)) = filter (\<lambda>k. g k = i) [0..<N] ! r"
    and g: "\<forall>k<N. g k < m"
    and j: "j < N"
  shows "\<exists>i r. i < m \<and> r < slot_count g N i \<and> j = slots_below g N i + r
           \<and> decode_index (inds ! j) = filter (\<lambda>k. g k = i) [0..<N] ! r
           \<and> decode_index (inds ! j) < N \<and> g (decode_index (inds ! j)) = i"
proof -
  have "slots_below g N 0 \<le> j" by simp
  moreover have "j < slots_below g N m" using slots_below_all[OF g] j by simp
  ultimately obtain i where i: "i < m" "slots_below g N i \<le> j" "j < slots_below g N (Suc i)"
    using find_bucket[of "slots_below g N" j m] by blast
  define r where "r = j - slots_below g N i"
  have r: "r < slot_count g N i" "j = slots_below g N i + r"
    using i by (simp_all add: r_def slots_below_Suc)
  let ?k = "filter (\<lambda>k. g k = i) [0..<N] ! r"
  have dk: "decode_index (inds ! j) = ?k" using inds i(1) r by simp
  have "?k \<in> set (filter (\<lambda>k. g k = i) [0..<N])"
    using r(1) by (intro nth_mem) (simp add: slot_count_def)
  then have "?k < N" "g ?k = i" by simp_all
  with i(1) r dk show ?thesis by metis
qed

lemma slot_in_bucket:
  assumes inds: "\<forall>i<m. \<forall>r<slot_count g N i.
           decode_index (inds ! (slots_below g N i + r)) = filter (\<lambda>k. g k = i) [0..<N] ! r"
    and g: "\<forall>k<N. g k < m"
    and k: "k < N"
  shows "\<exists>r<slot_count g N (g k). decode_index (inds ! (slots_below g N (g k) + r)) = k
           \<and> slots_below g N (g k) + r < N"
proof -
  have "k \<in> set (filter (\<lambda>k'. g k' = g k) [0..<N])" using k by simp
  then obtain r where r: "r < length (filter (\<lambda>k'. g k' = g k) [0..<N])"
    "filter (\<lambda>k'. g k' = g k) [0..<N] ! r = k" by (metis in_set_conv_nth)
  then have rc: "r < slot_count g N (g k)" by (simp add: slot_count_def)
  have "slots_below g N (Suc (g k)) \<le> slots_below g N m"
    using g k by (intro slots_below_mono) (simp add: Suc_le_eq)
  then have "slots_below g N (g k) + r < N"
    using rc slots_below_all[OF g] by (simp add: slots_below_Suc)
  moreover have "decode_index (inds ! (slots_below g N (g k) + r)) = k"
    using inds g k rc r(2) by simp
  ultimately show ?thesis using rc by blast
qed

lemma bucket_entries_inj:
  assumes offs: "\<forall>i\<le>m. offs ! i = slots_below g N i"
    and inds: "\<forall>i<m. \<forall>r<slot_count g N i.
           decode_index (inds ! (slots_below g N i + r)) = filter (\<lambda>k. g k = i) [0..<N] ! r"
    and g: "\<forall>k<N. g k < m"
    and j: "j < N" "j' < N" "decode_index (inds ! j) = decode_index (inds ! j')"
  shows "j = j'"
proof -
  from bucket_entry[OF offs inds g j(1)] obtain i r where
    1: "i < m" "r < slot_count g N i" "j = slots_below g N i + r"
       "decode_index (inds ! j) = filter (\<lambda>k. g k = i) [0..<N] ! r"
       "g (decode_index (inds ! j)) = i" by blast
  from bucket_entry[OF offs inds g j(2)] obtain i' r' where
    2: "i' < m" "r' < slot_count g N i'" "j' = slots_below g N i' + r'"
       "decode_index (inds ! j') = filter (\<lambda>k. g k = i') [0..<N] ! r'"
       "g (decode_index (inds ! j')) = i'" by blast
  have ii: "i = i'" using 1(5) 2(5) j(3) by simp
  have "distinct (filter (\<lambda>k. g k = i) [0..<N])" by simp
  moreover have "filter (\<lambda>k. g k = i) [0..<N] ! r = filter (\<lambda>k. g k = i) [0..<N] ! r'"
    using 1(4) 2(4) j(3) ii by simp
  ultimately have "r = r'"
    using 1(2) 2(2) ii by (simp add: nth_eq_iff_index_eq slot_count_def)
  with ii 1(3) 2(3) show ?thesis by simp
qed

subsection \<open>Offsets invariant\<close>

lemma ctor_decoded_buckets:
  assumes "ElementRestriction_ctor junk fes ord = Inr R" "valid_element_tables fes ord"
  shows "\<forall>i<ndofs R. \<forall>r<slot_count (slot_dof fes ord) (ne R * dof R) i.
           decode_index (indices R ! (slots_below (slot_dof fes ord) (ne R * dof R) i + r))
             = filter (\<lambda>k. slot_dof fes ord k = i) [0..<ne R * dof R] ! r"
  using ElementRestriction_ctor_result(5)[OF assms] by simp

text \<open>
  Claim C3. When the constructor of the element restriction completes on well-formed
  tables, \<^verbatim>\<open>offsets\<close> has \<open>ndofs + 1\<close> entries, is non-decreasing, starts at 0 and
  ends at \<open>ne * dof\<close>; the decoded entries of \<^verbatim>\<open>indices\<close> are a permutation of the
  local slots \<open>[0, ne * dof)\<close>, so that every slot is decoded from exactly one entry;
  and the slot of entry \<open>j\<close> lies in the bucket of the global dof that its
  \<^verbatim>\<open>gatherMap\<close> entry decodes to.
\<close>

theorem ElementRestriction_offsets_invariant:
  assumes "ElementRestriction_ctor junk fes e_ordering = Inr R"
    and "valid_element_tables fes e_ordering"
  shows "length (offsets R) = ndofs R + 1 \<and> sorted (offsets R)
       \<and> offsets R ! 0 = 0 \<and> offsets R ! ndofs R = ne R * dof R
       \<and> length (indices R) = ne R * dof R
       \<and> mset (map decode_index (indices R)) = mset [0..<ne R * dof R]
       \<and> (\<forall>lid<ne R * dof R. \<exists>!j. j < ne R * dof R \<and> decode_index (indices R ! j) = lid)
       \<and> (\<forall>j<ne R * dof R.
            let gid = decode_index (gatherMap R ! decode_index (indices R ! j))
            in gid < ndofs R \<and> offsets R ! gid \<le> j \<and> j < offsets R ! (gid + 1))"
proof -
  let ?N = "ne R * dof R" and ?g = "slot_dof fes e_ordering" and ?m = "ndofs R"
  note res = ElementRestriction_ctor_result[OF assms]
  have offs: "\<forall>i\<le>?m. offsets R ! i = slots_below ?g ?N i" using res(3) .
  have inds: "\<forall>i<?m. \<forall>r<slot_count ?g ?N i.
           decode_index (indices R ! (slots_below ?g ?N i + r))
             = filter (\<lambda>k. ?g k = i) [0..<?N] ! r"
    using ctor_decoded_buckets[OF assms] .
  have g: "\<forall>k<?N. ?g k < ?m" using res(8) .
  have gm: "decode_index (gatherMap R ! k) = ?g k" if "k < ?N" for k
    using res(7) that by simp
  have len: "length (offsets R) = ?m + 1" "length (indices R) = ?N" using res(2,4) .
  have sorted: "sorted (offsets R)"
    unfolding sorted_iff_nth_mono
  proof (intro allI impI)
    fix i j assume "i \<le> j" "j < length (offsets R)"
    then show "offsets R ! i \<le> offsets R ! j"
      using offs len(1) slots_below_mono[of i j ?g ?N] by simp
  qed
  have first: "offsets R ! 0 = 0" using offs by simp
  have last: "offsets R ! ?m = ?N" using offs slots_below_all[OF g] by simp
  have inj: "j = j'" if "j < ?N" "j' < ?N"
    "decode_index (indices R ! j) = decode_index (indices R ! j')" for j j'
    using bucket_entries_inj[OF offs inds g that] .
  have range: "decode_index (indices R ! j) < ?N" if "j < ?N" for j
    using bucket_entry[OF offs inds g that] by blast
  have uniq: "\<exists>!j. j < ?N \<and> decode_index (indices R ! j) = lid" if "lid < ?N" for lid
  proof -
    from slot_in_bucket[OF inds g that] obtain j where
      "j < ?N" "decode_index (indices R ! j) = lid" by blast
    then show ?thesis using inj by (intro ex1I[of _ j]) auto
  qed
  have perm: "mset (map decode_index (indices R)) = mset [0..<?N]"
  proof -
    let ?xs = "map decode_index (indices R)"
    have d: "distinct ?xs"
      unfolding distinct_conv_nth using inj len(2) by (auto simp: nth_map)
    have "set ?xs \<subseteq> {0..<?N}"
      using range len(2) by (auto simp: in_set_conv_nth)
    moreover have "card (set ?xs) = ?N" using distinct_card[OF d] len(2) by simp
    ultimately have "set ?xs = {0..<?N}" by (intro card_subset_eq) simp_all
    then have "set ?xs = set [0..<?N]" by simp
    with d show ?thesis by (metis distinct_upt set_eq_iff_mset_eq_distinct)
  qed
  have bucket: "let gid = decode_index (gatherMap R ! decode_index (indices R ! j))
            in gid < ?m \<and> offsets R ! gid \<le> j \<and> j < offsets R ! (gid + 1)"
    if "j < ?N" for j
  proof -
    from bucket_entry[OF offs inds g that] obtain i r where
      ir: "i < ?m" "r < slot_count ?g ?N i" "j = slots_below ?g ?N i + r"
        "decode_index (indices R ! j) < ?N" "?g (decode_index (indices R ! j)) = i" by blast
    have "decode_index (gatherMap R ! decode_index (indices R ! j)) = i"
      using gm[OF ir(4)] ir(5) by simp
    moreover have "offsets R ! i \<le> j" "j < offsets R ! (i + 1)"
      using offs ir(1,2,3) by (simp_all add: slots_below_Suc)
    ultimately show ?thesis using ir(1) by simp
  qed
  show ?thesis using len sorted first last perm uniq bucket by blast
qed

lemma two_segment_ctor:
  "ElementRestriction_ctor 0 two_segment_space LEXICOGRAPHIC = Inr two_segment_restriction"
  by code_simp

lemma two_segment_valid: "valid_element_tables two_segment_space LEXICOGRAPHIC"
  by code_simp

theorem ElementRestriction_offsets_invariant_witness:
  "ElementRestriction_ctor 0 two_segment_space LEXICOGRAPHIC = Inr two_segment_restriction
   \<and> valid_element_tables two_segment_space LEXICOGRAPHIC
   \<and> offsets two_segment_restriction = [0, 1, 3, 4]
   \<and> indices two_segment_restriction = [0, - 2, 2, 3]
   \<and> sorted (offsets two_segment_restriction)
   \<and> offsets two_segment_restriction ! ndofs two_segment_restriction
       = ne two_segment_restriction * dof two_segment_restriction
   \<and> mset (map decode_index (indices two_segment_restriction))
       = mset [0..<ne two_segment_restriction * dof two_segment_restriction]"
  using ElementRestriction_offsets_invariant[OF two_segment_ctor two_segment_valid]
    two_segment_ctor two_segment_valid
  by (simp add: two_segment_restriction_def)

section \<open>Scatter followed by gather\<close>

lemma rev_upt_as_map: "rev [Suc 0..<Suc n] = map (\<lambda>j. n - j) [0..<n]"
proof (induction n)
  case 0
  then show ?case by simp
next
  case (Suc n)
  have "map (\<lambda>j. Suc n - j) [0..<Suc n] = Suc n # map (\<lambda>j. Suc n - j) [Suc 0..<Suc n]"
    by (simp add: upt_rec[of 0])
  also have "[Suc 0..<Suc n] = map Suc [0..<n]" by (simp add: map_Suc_upt)
  also have "map (\<lambda>j. Suc n - j) (map Suc [0..<n]) = map (\<lambda>j. n - j) [0..<n]" by simp
  finally show ?case using Suc by simp
qed

text \<open>The descending loop, in a form that evaluates its list of indices first.\<close>

lemma shift_offsets_code [code]:
  "shift_offsets n offs0
     = (fold (\<lambda>i offs. offs[i := offs ! (i - 1)]) (map (\<lambda>j. n - j) [0..<n]) offs0)[0 := 0]"
  using rev_upt_as_map[of n] by (simp add: shift_offsets_def)









section \<open>Counting the nonzero entries: \<^verbatim>\<open>ElementRestriction::FillI\<close>\<close>

subsection \<open>The minimum of the intersection\<close>
















subsection \<open>The iterations of the loop nest\<close>












lemma dof_triples_set [simp]:
  "(e, i, j) \<in> set (dof_triples n_e n_d) \<longleftrightarrow> e < n_e \<and> i < n_d \<and> j < n_d"
  unfolding dof_triples_def by simp






lemma count_step_length [simp]: "length (count_step g n_e n_d t I) = length I"
  by (simp add: count_step_def split: prod.splits)


lemma fold_count_step_length [simp]:
  "length (fold (\<lambda>x. count_step g n_e n_d (t x)) xs I) = length I"
  by (induction xs arbitrary: I) simp_all






subsection \<open>The count of FillI\<close>













text \<open>
  The other hypotheses mark where the source leaves its arrays: with a sign-coded entry
  in \<^verbatim>\<open>gatherMap\<close> the subscript of \<^verbatim>\<open>d_offsets\<close> is negative, and a global dof with
  more slots than \<^verbatim>\<open>MaxNbNbr\<close> overruns the buffer \<^verbatim>\<open>i_elts\<close>.
\<close>

lemma FillI_outside_arrays:
  "FillI 16 0 two_segment_restriction (replicate 4 0) = Inl Subscript_out_of_range
   \<and> FillI 3 0 quad2x2_restriction (replicate 26 0) = Inl Subscript_out_of_range"
  by code_simp
section \<open>The constructor of the continuous face restriction\<close>


lemma fold_update_length [simp]:
  "length (fold (\<lambda>x fm. fm[p x := w x]) xs fm) = length fm"
  by (induction xs arbitrary: fm) simp_all




lemma grid_length [simp]:
  "length (fold (\<lambda>i. fold (\<lambda>j fm. fm[i + j * dof1d := v i j]) ys) xs fm) = length fm"
  by (induction xs arbitrary: fm) simp_all

lemma GetFaceDofs_length [simp]: "length (GetFaceDofs dim' face_id dof1d fm) = length fm"
  unfolding GetFaceDofs_def Let_def
  by (simp only: if_distrib[of length] fold_update_length grid_length length_list_update if_cancel)
















section \<open>Theorems on the face restrictions\<close>

subsection \<open>Transpose of the continuous face restriction\<close>











subsection \<open>Boundary sentinel of the discontinuous face restriction\<close>

lemma run_stores_constant:
  assumes "k < length y" "k \<in> fst ` set ops"
    "\<And>k' f old. (k', f) \<in> set ops \<Longrightarrow> k' = k \<Longrightarrow> f old = v"
  shows "run_stores ops y ! k = v"
  using assms
proof (induction ops arbitrary: y)
  case Nil
  then show ?case by simp
next
  case (Cons a ops)
  obtain k' f where a: "a = (k', f)" by (cases a)
  show ?case
  proof (cases "k \<in> fst ` set ops")
    case True
    then have "run_stores ops (y[k' := f (y ! k')]) ! k = v"
      using Cons.prems(1,3) by (intro Cons.IH) auto
    then show ?thesis using a by (simp add: run_stores_Cons)
  next
    case False
    with Cons.prems(2) a have k: "k' = k" by auto
    have "f (y ! k) = v" using Cons.prems(3)[of k' f "y ! k"] a k by simp
    moreover have "run_stores ops (y[k := f (y ! k)]) ! k = (y[k := f (y ! k)]) ! k"
      using False by (rule run_stores_other)
    ultimately show ?thesis using a k Cons.prems(1) by (simp add: run_stores_Cons)
  qed
qed

lemma fold_sentinel:
  "length (fold (\<lambda>d sc. sc[b + d := v]) [0..<n] sc) = length sc \<and>
   (\<forall>i < length sc. fold (\<lambda>d sc. sc[b + d := v]) [0..<n] sc ! i
        = (if b \<le> i \<and> i < b + n then v else sc ! i))"
proof (induction n)
  case 0
  then show ?case by auto
next
  case (Suc n)
  let ?r = "fold (\<lambda>d sc. sc[b + d := v]) [0..<n] sc"
  have step: "fold (\<lambda>d sc. sc[b + d := v]) [0..<Suc n] sc = ?r[b + n := v]" by simp
  have len: "length ?r = length sc" using Suc by simp
  have "(?r[b + n := v]) ! i = (if b \<le> i \<and> i < b + Suc n then v else sc ! i)"
    if "i < length sc" for i
  proof (cases "i = b + n")
    case True
    then show ?thesis using that len by simp
  next
    case False
    then have "(?r[b + n := v]) ! i = ?r ! i" by simp
    also have "\<dots> = (if b \<le> i \<and> i < b + n then v else sc ! i)" using Suc that by simp
    finally show ?thesis using False by auto
  qed
  then show ?case unfolding step using len by simp
qed

lemma l2_scatter_face_boundary:
  assumes "l2_scatter_face Boundary DoubleValued dim' dof1d elem_dofs n_d elementMap face
             (f_ind, fm1, fm2, sc1, sc2) = Inr (f_ind', fm1', fm2', sc1', sc2')"
    and "\<forall>i < length sc2. i < n_d * f_ind \<longrightarrow> sc2 ! i = - 1"
  shows "length sc2' = length sc2 \<and> (\<forall>i < length sc2. i < n_d * f_ind' \<longrightarrow> sc2' ! i = - 1)"
proof -
  obtain e1 e2 inf1 inf2 where face: "face = (e1, e2, inf1, inf2)" by (cases face)
  show ?thesis
  proof (cases "e2 < 0")
    case True
    have "fold_err (\<lambda>d sc2. Inr (sc2[n_d * f_ind + d := - 1])) [0..<n_d] sc2
          = Inr (fold (\<lambda>d sc2. sc2[n_d * f_ind + d := - 1]) [0..<n_d] sc2)"
      by (rule fold_err_total)
    with assms(1) face True
    have "sc2' = fold (\<lambda>d sc2. sc2[n_d * f_ind + d := - 1]) [0..<n_d] sc2"
      and "f_ind' = f_ind + 1"
      by (simp_all add: l2_scatter_face_def scatter_selected_def Let_def)
    then show ?thesis
      using fold_sentinel[of "n_d * f_ind" "- 1" n_d sc2] assms(2) by auto
  next
    case False
    with assms(1) face have "sc2' = sc2" "f_ind' = f_ind"
      by (simp_all add: l2_scatter_face_def scatter_selected_def Let_def)
    with assms(2) show ?thesis by simp
  qed
qed

lemma l2_scatter_boundary_loop:
  assumes "fold_err (l2_scatter_face Boundary DoubleValued dim' dof1d elem_dofs n_d elementMap)
             faces (0, fm1, fm2, sc1, sc2) = Inr (f_ind', fm1', fm2', sc1', sc2')"
  shows "length sc2' = length sc2 \<and> (\<forall>i < length sc2. i < n_d * f_ind' \<longrightarrow> sc2' ! i = - 1)"
proof -
  let ?P = "\<lambda>(f_ind, fm1, fm2, sc1, sc2' :: int list).
       length sc2' = length sc2 \<and> (\<forall>i < length sc2. i < n_d * f_ind \<longrightarrow> sc2' ! i = - 1)"
  have "?P (f_ind', fm1', fm2', sc1', sc2')"
  proof (rule fold_err_invariant[where P = ?P, OF _ _ assms])
    show "?P (0, fm1, fm2, sc1, sc2)" by simp
    fix a s s'
    assume "?P s"
      and "l2_scatter_face Boundary DoubleValued dim' dof1d elem_dofs n_d elementMap a s = Inr s'"
    then show "?P s'"
      using l2_scatter_face_boundary[of dim' dof1d elem_dofs n_d elementMap a]
      by (cases s; cases s') (auto; metis)
  qed
  then show ?thesis by simp
qed


lemma l2_ctor_finish_Inr:
  assumes "l2_ctor_finish R0 sc1 sc2 X = Inr R"
  shows "l2_nf R = l2_nf R0 \<and> l2_dof R = l2_dof R0 \<and> l2_vdim R = l2_vdim R0
         \<and> l2_m R = l2_m R0 \<and> l2_nfdofs R = l2_nfdofs R0
         \<and> l2_scatter_indices1 R = sc1 \<and> l2_scatter_indices2 R = sc2"
  using assms by (cases X) (auto split: if_splits)

lemma l2_ctor_gather_Inr:
  assumes "l2_ctor_gather R0 type dim' dof1d elementMap faces sc1 sc2 X = Inr R"
  shows "l2_nf R = l2_nf R0 \<and> l2_dof R = l2_dof R0 \<and> l2_vdim R = l2_vdim R0
         \<and> l2_m R = l2_m R0 \<and> l2_nfdofs R = l2_nfdofs R0
         \<and> l2_scatter_indices1 R = sc1 \<and> l2_scatter_indices2 R = sc2"
proof (cases X)
  case (Inl err)
  with assms show ?thesis by simp
next
  case (Inr st)
  obtain f_ind fm1 fm2 offs where "st = (f_ind, fm1, fm2, offs)" by (cases st) auto
  with assms Inr show ?thesis
    using l2_ctor_finish_Inr[of R0 sc1 sc2 _ R] by (simp split: if_splits)
qed

lemma l2_ctor_count_Inr:
  assumes "l2_ctor_count R0 type dim' dof1d elementMap faces X = Inr R"
  shows "\<exists>f_ind fm1 fm2 sc1 sc2.
           X = Inr (f_ind, fm1, fm2, sc1, sc2) \<and> f_ind = l2_nf R0 \<and>
           l2_nf R = l2_nf R0 \<and> l2_dof R = l2_dof R0 \<and> l2_vdim R = l2_vdim R0
         \<and> l2_m R = l2_m R0 \<and> l2_nfdofs R = l2_nfdofs R0
         \<and> l2_scatter_indices1 R = sc1 \<and> l2_scatter_indices2 R = sc2"
proof (cases X)
  case (Inl err)
  with assms show ?thesis by simp
next
  case (Inr st)
  obtain f_ind fm1 fm2 sc1 sc2 where st: "st = (f_ind, fm1, fm2, sc1, sc2)"
    by (cases st) auto
  with assms Inr have f: "f_ind = l2_nf R0" by (auto split: if_splits)
  with assms Inr st
  have "l2_nf R = l2_nf R0 \<and> l2_dof R = l2_dof R0 \<and> l2_vdim R = l2_vdim R0
         \<and> l2_m R = l2_m R0 \<and> l2_nfdofs R = l2_nfdofs R0
         \<and> l2_scatter_indices1 R = sc1 \<and> l2_scatter_indices2 R = sc2"
    using l2_ctor_gather_Inr[of R0 type dim' dof1d elementMap faces sc1 sc2 _ R] by simp
  with f show ?thesis using Inr st by blast
qed

lemma L2FaceRestriction_ctor_boundary:
  assumes "L2FaceRestriction_ctor junk fes mesh e_ordering Boundary DoubleValued = Inr R"
  shows "l2_m R = DoubleValued \<and> l2_nfdofs R = l2_nf R * l2_dof R
         \<and> length (l2_scatter_indices2 R) = l2_nfdofs R
         \<and> (\<forall>i < l2_nfdofs R. l2_scatter_indices2 R ! i = - 1)"
proof -
  define n_f where "n_f = GetNFbyType mesh Boundary"
  define n_d where "n_d = (if n_f > 0 then GetFaceDof mesh else 0)"
  define R0 where "R0 = \<lparr> l2_nf = n_f, l2_ne = GetNE fes, l2_vdim = GetVDim fes,
                l2_byvdim = OrderingByVDIM fes, l2_ndofs = GetNDofs fes, l2_dof = n_d,
                l2_elemDofs = GetDof fes, l2_m = DoubleValued, l2_nfdofs = n_f * n_d,
                l2_scatter_indices1 = replicate (n_f * n_d) junk,
                l2_scatter_indices2 = replicate (if DoubleValued = DoubleValued then n_f * n_d else 0) junk,
                l2_offsets = replicate (GetNDofs fes + 1) (nat junk),
                l2_gather_indices = replicate ((if DoubleValued = DoubleValued then 2 else 1) * n_f * n_d)
                                      (nat junk) \<rparr>"
  show ?thesis
  proof (cases "n_f = 0")
    case True
    with assms have "R = R0"
      by (simp add: L2FaceRestriction_ctor_def Let_def R0_def n_d_def n_f_def split: if_splits)
    then show ?thesis using True by (simp add: R0_def)
  next
    case False
    define X where "X = fold_err (l2_scatter_face Boundary DoubleValued (SpaceDimension mesh)
          (GetOrder mesh + 1) (GetDof fes) n_d (ElementToDofJ fes)) (Faces mesh)
          (0, replicate n_d junk, replicate n_d junk,
           l2_scatter_indices1 R0, l2_scatter_indices2 R0)"
    from assms False
    have "l2_ctor_count R0 Boundary (SpaceDimension mesh) (GetOrder mesh + 1)
            (ElementToDofJ fes) (Faces mesh) X = Inr R"
      by (simp add: L2FaceRestriction_ctor_def Let_def R0_def n_d_def n_f_def X_def
          split: if_splits)
    from l2_ctor_count_Inr[OF this]
    obtain f_ind fm1 fm2 sc1 sc2 where
      X: "X = Inr (f_ind, fm1, fm2, sc1, sc2)" and f: "f_ind = l2_nf R0"
      and R: "l2_nf R = l2_nf R0" "l2_dof R = l2_dof R0" "l2_vdim R = l2_vdim R0"
         "l2_m R = l2_m R0" "l2_nfdofs R = l2_nfdofs R0"
         "l2_scatter_indices1 R = sc1" "l2_scatter_indices2 R = sc2" by blast
    from l2_scatter_boundary_loop[OF X[unfolded X_def]]
    have "length sc2 = length (l2_scatter_indices2 R0)"
      and "\<forall>i < length (l2_scatter_indices2 R0). i < n_d * f_ind \<longrightarrow> sc2 ! i = - 1"
      by simp_all
    then show ?thesis using R f by (simp add: R0_def mult.commute)
  qed
qed


lemma Reshape4_side_inj:
  assumes "a < nd" "a' < nd" "c < vd" "c' < vd" "s < 2" "s' < 2"
    "Reshape4 nd vd 2 a c s f = Reshape4 nd vd 2 a' c' s' f'"
  shows "a = a' \<and> c = c' \<and> s = s' \<and> f = f'"
proof -
  from assms(7) have "a + nd * (c + vd * (s + 2 * f)) = a' + nd * (c' + vd * (s' + 2 * f'))"
    by (simp add: Reshape4_def)
  from nat_lex_unique[OF assms(1,2) this]
  have a: "a = a'" and "c + vd * (s + 2 * f) = c' + vd * (s' + 2 * f')" by simp_all
  from nat_lex_unique[OF assms(3,4) this(2)]
  have c: "c = c'" and "s + 2 * f = s' + 2 * f'" by simp_all
  from nat_lex_unique[OF assms(5,6) this(2)] a c show ?thesis by simp
qed

lemma Reshape4_bound:
  assumes "a < nd" "c < vd" "s < 2" "f < n"
  shows "Reshape4 nd vd 2 a c s f < 2 * vd * n * nd"
proof -
  have "s + 2 * f < 2 * n" using assms(3,4) by simp
  then have "s + 2 * f + 1 \<le> 2 * n" by simp
  then have "vd * (s + 2 * f + 1) \<le> vd * (2 * n)" by (rule mult_le_mono2)
  moreover have "c + vd * (s + 2 * f) < vd * (s + 2 * f + 1)" using assms(2) by simp
  ultimately have "c + vd * (s + 2 * f) + 1 \<le> vd * (2 * n)" by simp
  then have "nd * (c + vd * (s + 2 * f) + 1) \<le> nd * (vd * (2 * n))" by (rule mult_le_mono2)
  moreover have "a + nd * (c + vd * (s + 2 * f)) < nd * (c + vd * (s + 2 * f) + 1)"
    using assms(1) by simp
  ultimately show ?thesis by (simp add: Reshape4_def mult.assoc mult.left_commute mult.commute)
qed

lemma L2Face_Mult_stores_double:
  assumes "l2_m R = DoubleValued"
  shows "set (L2Face_Mult_stores R x) =
     (\<Union>i \<in> {0..<l2_nfdofs R}. \<Union>c \<in> {0..<l2_vdim R}.
        {(Reshape4 (l2_dof R) (l2_vdim R) 2 (i mod l2_dof R) c 0 (i div l2_dof R),
          \<lambda>_. x ! Reshape2 (if l2_byvdim R then l2_vdim R else l2_ndofs R)
                   (if l2_byvdim R then c else nat (l2_scatter_indices1 R ! i))
                   (if l2_byvdim R then nat (l2_scatter_indices1 R ! i) else c)),
         (Reshape4 (l2_dof R) (l2_vdim R) 2 (i mod l2_dof R) c 1 (i div l2_dof R),
          \<lambda>_. if l2_scatter_indices2 R ! i = - 1 then 0
               else x ! Reshape2 (if l2_byvdim R then l2_vdim R else l2_ndofs R)
                   (if l2_byvdim R then c else nat (l2_scatter_indices2 R ! i))
                   (if l2_byvdim R then nat (l2_scatter_indices2 R ! i) else c))})"
  using assms by (auto simp: L2Face_Mult_stores_def Let_def)

lemma L2Face_Mult_sentinel_zero:
  assumes "l2_m R = DoubleValued" and "l2_nfdofs R = l2_nf R * l2_dof R"
    and "i < l2_nfdofs R" and "c < l2_vdim R" and "l2_scatter_indices2 R ! i = - 1"
    and "length y = 2 * l2_vdim R * l2_nf R * l2_dof R"
  shows "L2Face_Mult R x y
           ! Reshape4 (l2_dof R) (l2_vdim R) 2 (i mod l2_dof R) c 1 (i div l2_dof R) = 0"
proof -
  let ?nd = "l2_dof R" and ?vd = "l2_vdim R"
  let ?k = "Reshape4 ?nd ?vd 2 (i mod ?nd) c 1 (i div ?nd)"
  have nd: "0 < ?nd" using assms(2,3) by (cases "?nd") auto
  have f: "i div ?nd < l2_nf R" using assms(2,3) nd by (simp add: less_mult_imp_div_less)
  have "?k < length y"
    using Reshape4_bound[of "i mod ?nd" ?nd c ?vd 1 "i div ?nd" "l2_nf R"] nd f assms(4,6)
    by simp
  moreover have "?k \<in> fst ` set (L2Face_Mult_stores R x)"
    unfolding L2Face_Mult_stores_double[OF assms(1)] using assms(3,4) by force
  moreover have "g old = 0" if "(k', g) \<in> set (L2Face_Mult_stores R x)" "k' = ?k" for k' g old
  proof -
    from that(1) obtain i' c' where ic: "i' < l2_nfdofs R" "c' < ?vd"
      and kg: "(k' = Reshape4 ?nd ?vd 2 (i' mod ?nd) c' 0 (i' div ?nd))
           \<or> (k' = Reshape4 ?nd ?vd 2 (i' mod ?nd) c' 1 (i' div ?nd)
               \<and> g = (\<lambda>_. if l2_scatter_indices2 R ! i' = - 1 then 0
               else x ! Reshape2 (if l2_byvdim R then ?vd else l2_ndofs R)
                   (if l2_byvdim R then c' else nat (l2_scatter_indices2 R ! i'))
                   (if l2_byvdim R then nat (l2_scatter_indices2 R ! i') else c')))"
      unfolding L2Face_Mult_stores_double[OF assms(1)] by auto
    from kg show ?thesis
    proof
      assume "k' = Reshape4 ?nd ?vd 2 (i' mod ?nd) c' 0 (i' div ?nd)"
      with that(2) have "Reshape4 ?nd ?vd 2 (i' mod ?nd) c' 0 (i' div ?nd)
          = Reshape4 ?nd ?vd 2 (i mod ?nd) c 1 (i div ?nd)" by simp
      from Reshape4_side_inj[OF _ _ ic(2) assms(4) _ _ this] nd show ?thesis by simp
    next
      assume B: "k' = Reshape4 ?nd ?vd 2 (i' mod ?nd) c' 1 (i' div ?nd)
               \<and> g = (\<lambda>_. if l2_scatter_indices2 R ! i' = - 1 then 0
               else x ! Reshape2 (if l2_byvdim R then ?vd else l2_ndofs R)
                   (if l2_byvdim R then c' else nat (l2_scatter_indices2 R ! i'))
                   (if l2_byvdim R then nat (l2_scatter_indices2 R ! i') else c'))"
      with that(2) have "Reshape4 ?nd ?vd 2 (i' mod ?nd) c' 1 (i' div ?nd)
          = Reshape4 ?nd ?vd 2 (i mod ?nd) c 1 (i div ?nd)" by simp
      from Reshape4_side_inj[OF _ _ ic(2) assms(4) _ _ this] nd
      have "i' mod ?nd = i mod ?nd" "i' div ?nd = i div ?nd" by simp_all
      then have "i' = i" by (metis div_mult_mod_eq)
      with B assms(5) show ?thesis by simp
    qed
  qed
  ultimately show ?thesis unfolding L2Face_Mult_def by (rule run_stores_constant)
qed

lemma L2Face_Mult_reads2_no_sentinel: "- 1 \<notin> set (L2Face_Mult_reads2 R)"
  by (auto simp: L2Face_Mult_reads2_def Let_def split: if_splits)

text \<open>
  Claim C7. When the constructor of a double-valued discontinuous face restriction over
  the boundary faces completes, \<^verbatim>\<open>scatter_indices2\<close> holds \<open>-1\<close> at every slot, and
  \<^verbatim>\<open>Mult\<close> leaves 0 in the side-2 entry of every slot and component, whatever the
  output vector held before; it reads the global vector with no index \<open>-1\<close> for side 2.
\<close>

theorem L2Face_boundary_sentinel:
  assumes "L2FaceRestriction_ctor junk fes mesh e_ordering Boundary DoubleValued = Inr R"
    and "i < l2_nfdofs R" and "c < l2_vdim R"
    and "length y = 2 * l2_vdim R * l2_nf R * l2_dof R"
  shows "l2_scatter_indices2 R ! i = - 1
       \<and> L2Face_Mult R x y
           ! Reshape4 (l2_dof R) (l2_vdim R) 2 (i mod l2_dof R) c 1 (i div l2_dof R) = 0
       \<and> - 1 \<notin> set (L2Face_Mult_reads2 R)"
proof -
  from L2FaceRestriction_ctor_boundary[OF assms(1)]
  have m: "l2_m R = DoubleValued" and n: "l2_nfdofs R = l2_nf R * l2_dof R"
    and s: "l2_scatter_indices2 R ! i = - 1" using assms(2) by simp_all
  from L2Face_Mult_sentinel_zero[OF m n assms(2,3) s assms(4)] s
    L2Face_Mult_reads2_no_sentinel
  show ?thesis by simp
qed

lemma one_quad_boundary_ctor:
  "L2FaceRestriction_ctor 0 one_quad_space one_quad_faces LEXICOGRAPHIC Boundary DoubleValued
     = Inr one_quad_boundary_restriction"
  by code_simp

theorem L2Face_boundary_sentinel_witness:
  "L2FaceRestriction_ctor 0 one_quad_space one_quad_faces LEXICOGRAPHIC Boundary DoubleValued
     = Inr one_quad_boundary_restriction
   \<and> (5::nat) < l2_nfdofs one_quad_boundary_restriction
   \<and> (0::nat) < l2_vdim one_quad_boundary_restriction
   \<and> l2_scatter_indices2 one_quad_boundary_restriction ! 5 = - 1
   \<and> L2Face_Mult one_quad_boundary_restriction [10, 20, 30, 40 :: int] (replicate 16 7)
        = [10, 20, 0, 0, 20, 40, 0, 0, 30, 40, 0, 0, 10, 30, 0, 0]
   \<and> L2Face_Mult one_quad_boundary_restriction [10, 20, 30, 40 :: int] (replicate 16 7)
        ! Reshape4 2 1 2 (5 mod 2) 0 1 (5 div 2) = 0"
proof -
  have h: "(5::nat) < l2_nfdofs one_quad_boundary_restriction"
    "(0::nat) < l2_vdim one_quad_boundary_restriction"
    "length (replicate 16 (7::int)) = 2 * l2_vdim one_quad_boundary_restriction
       * l2_nf one_quad_boundary_restriction * l2_dof one_quad_boundary_restriction"
    by (simp_all add: one_quad_boundary_restriction_def)
  have e: "L2Face_Mult one_quad_boundary_restriction [10, 20, 30, 40 :: int] (replicate 16 7)
        = [10, 20, 0, 0, 20, 40, 0, 0, 30, 40, 0, 0, 10, 30, 0, 0]"
    by code_simp
  from L2Face_boundary_sentinel[OF one_quad_boundary_ctor h, of "[10, 20, 30, 40 :: int]"]
    one_quad_boundary_ctor h(1,2) e
  show ?thesis by (simp add: one_quad_boundary_restriction_def)
qed

text \<open>
  Claim C8 fails on the code. On the restriction of the four boundary faces of one
  quadrilateral, \<^verbatim>\<open>FillI\<close> and \<^verbatim>\<open>FillJAndData\<close> pass the sentinel \<open>-1\<close> to
  \<^verbatim>\<open>AddNnz\<close> as the row to increment, once for every slot, and
  \<^verbatim>\<open>AddFaceMatricesToElementMatrices\<close> computes \<open>e2 = -1 / 4 = 0\<close>, which passes the
  test \<^verbatim>\<open>e2 < NE\<close>, and addresses the element matrix with the subscripts
  \<open>(-1, -1, 0)\<close>.
\<close>

theorem L2Face_sentinel_used_as_index:
  "L2FaceRestriction_ctor 0 one_quad_space one_quad_faces LEXICOGRAPHIC Boundary DoubleValued
     = Inr one_quad_boundary_restriction
   \<and> L2Face_FillI_rows one_quad_boundary_restriction
       = [0, - 1, 1, - 1, 1, - 1, 3, - 1, 2, - 1, 3, - 1, 0, - 1, 2, - 1]
   \<and> L2Face_FillJAndData_rows one_quad_boundary_restriction
       = [0, - 1, 1, - 1, 1, - 1, 3, - 1, 2, - 1, 3, - 1, 0, - 1, 2, - 1]
   \<and> L2Face_AddFaceMatrices_subscripts2 one_quad_boundary_restriction
       = replicate 16 (- 1, - 1, 0)"
proof -
  have "L2Face_FillI_rows one_quad_boundary_restriction
       = [0, - 1, 1, - 1, 1, - 1, 3, - 1, 2, - 1, 3, - 1, 0, - 1, 2, - 1]" by code_simp
  moreover have "L2Face_FillJAndData_rows one_quad_boundary_restriction
       = [0, - 1, 1, - 1, 1, - 1, 3, - 1, 2, - 1, 3, - 1, 0, - 1, 2, - 1]" by code_simp
  moreover have "L2Face_AddFaceMatrices_subscripts2 one_quad_boundary_restriction
       = replicate 16 (- 1, - 1, 0)" by code_simp
  ultimately show ?thesis using one_quad_boundary_ctor by simp
qed
end
